theory Spec2Isabelle
  imports Main "HOL-Library.Word"
begin

section \<open>Time\<close>

text \<open>
  Instants are nanosecond counts. \<open>time.Time.Sub\<close> returns a \<open>Duration\<close> (an int64 of
  nanoseconds) and saturates at the largest and smallest duration.
\<close>

type_synonym time = int

definition maxDuration :: int where "maxDuration = 2 ^ 63 - 1"
definition minDuration :: int where "minDuration = - (2 ^ 63)"
definition Minute :: int where "Minute = 60000000000"
definition Second :: int where "Second = 1000000000"

definition time_Sub :: "time \<Rightarrow> time \<Rightarrow> int" where
  "time_Sub t u =
     (let d = t - u in
      if d > maxDuration then maxDuration
      else if d < minDuration then minDuration
      else d)"

text \<open>\<open>Time.Unix()\<close>: whole seconds since the epoch.\<close>

definition Unix :: "time \<Rightarrow> int" where
  "Unix t = t div Second"

text \<open>Go's integer division truncates toward zero; 64-bit arithmetic wraps around.\<close>

definition go_div :: "int \<Rightarrow> int \<Rightarrow> int" where
  "go_div a b = sgn a * sgn b * (\<bar>a\<bar> div \<bar>b\<bar>)"

definition wrap64 :: "int \<Rightarrow> int" where
  "wrap64 x = (x + 2 ^ 63) mod 2 ^ 64 - 2 ^ 63"

text \<open>The remainder \<open>a % b\<close> has the sign of the dividend.\<close>

definition go_mod :: "int \<Rightarrow> int \<Rightarrow> int" where
  "go_mod a b = a - b * go_div a b"

section \<open>Floating point\<close>

text \<open>
  A \<open>float64\<close> is written as a pair \<open>(m, e)\<close> of integers that stands for \<open>m * 2 ^ e\<close>.
  Arithmetic on \<open>float64\<close> returns the representable number nearest to the exact result,
  the one with the even significand when two are equally near; a representable number
  has 53 significant bits. The numbers that occur below are far from the largest and
  from the smallest \<open>float64\<close>, so the range of the exponent plays no part.
\<close>

type_synonym float64 = "int \<times> int"

text \<open>The number of binary digits of a positive integer.\<close>

function bit_length :: "int \<Rightarrow> nat" where
  "bit_length n = (if n \<le> 0 then 0 else Suc (bit_length (n div 2)))"
  by pat_completeness auto
termination
  by (relation "measure nat") auto

declare bit_length.simps [simp del]

text \<open>The integer nearest to \<open>a / b\<close>, the even one in a tie, for \<open>a\<close> not negative and \<open>b\<close> positive.\<close>

definition round_half_even :: "int \<Rightarrow> int \<Rightarrow> int" where
  "round_half_even a b =
     (let m = a div b; r = a mod b in
      if 2 * r < b then m
      else if b < 2 * r then m + 1
      else if even m then m else m + 1)"

text \<open>The exponent \<open>k\<close> with \<open>2 ^ k \<le> a / b < 2 ^ (k + 1)\<close>, for \<open>a\<close> and \<open>b\<close> positive.\<close>

definition binary_exponent :: "int \<Rightarrow> int \<Rightarrow> int" where
  "binary_exponent a b =
     (let k = int (bit_length a) - int (bit_length b) in
      if (if 0 \<le> k then b * 2 ^ nat k \<le> a else b \<le> a * 2 ^ nat (- k)) then k else k - 1)"

text \<open>The \<open>float64\<close> nearest to \<open>p / q\<close>, for \<open>q\<close> positive.\<close>

definition float64_quot :: "int \<Rightarrow> int \<Rightarrow> float64" where
  "float64_quot p q =
     (if p = 0 then (0, 0)
      else let a = \<bar>p\<bar>;
               e = binary_exponent a q - 52;
               m = (if 0 \<le> e then round_half_even a (q * 2 ^ nat e)
                    else round_half_even (a * 2 ^ nat (- e)) q)
           in (sgn p * m, e))"

text \<open>The conversion \<open>float64(n)\<close> of an integer, and the operators \<open>+\<close> and \<open>/\<close>.\<close>

definition float64_of_int :: "int \<Rightarrow> float64" where
  "float64_of_int n = float64_quot n 1"

definition float64_add :: "float64 \<Rightarrow> float64 \<Rightarrow> float64" where
  "float64_add x y =
     (let e = min (snd x) (snd y);
          n = fst x * 2 ^ nat (snd x - e) + fst y * 2 ^ nat (snd y - e)
      in if 0 \<le> e then float64_quot (n * 2 ^ nat e) 1 else float64_quot n (2 ^ nat (- e)))"

text \<open>The divisor is not zero.\<close>

definition float64_div :: "float64 \<Rightarrow> float64 \<Rightarrow> float64" where
  "float64_div x y =
     (let e = snd x - snd y;
          p = sgn (fst y) * fst x;
          q = \<bar>fst y\<bar>
      in if 0 \<le> e then float64_quot (p * 2 ^ nat e) q else float64_quot p (q * 2 ^ nat (- e)))"

text \<open>The conversion \<open>int64(x)\<close> of a \<open>float64\<close> discards the fraction.\<close>

definition int64_of_float64 :: "float64 \<Rightarrow> int" where
  "int64_of_float64 x =
     (if 0 \<le> snd x then fst x * 2 ^ nat (snd x) else go_div (fst x) (2 ^ nat (- snd x)))"

text \<open>
  \<open>Duration.Seconds\<close> of package \<open>time\<close>:
  \<open>sec := d / Second; nsec := d % Second; return float64(sec) + float64(nsec)/1e9\<close>
\<close>

definition Seconds :: "int \<Rightarrow> float64" where
  "Seconds d =
     (let sec = go_div d Second; nsec = go_mod d Second
      in float64_add (float64_of_int sec)
           (float64_div (float64_of_int nsec) (float64_of_int 1000000000)))"

section \<open>Strings, slices and \<open>encoding/json\<close>\<close>

text \<open>
  A Go string is a sequence of bytes, here a \<open>string\<close> whose characters are read as
  bytes. A slice is nil or holds a list; ranging over either visits the elements.

  \<open>Role.GetPermissions\<close> and \<open>Role.SetPermissions\<close> call \<open>json.Unmarshal\<close> and
  \<open>json.Marshal\<close> of the Go standard library on a \<open>[]string\<close>. The library is no
  part of the repository; this section states what it does on that type, after its
  documentation and source (\<open>encode.go\<close>, \<open>scanner.go\<close>, \<open>decode.go\<close>,
  \<open>unicode/utf8\<close>).
\<close>

datatype 'a slice = NilSlice | Slice "'a list"

definition byte :: "char \<Rightarrow> nat" where "byte c = of_char c"

definition dquote :: char where "dquote = CHR 0x22"
definition bslash :: char where "bslash = CHR 0x5C"

subsection \<open>UTF-8\<close>

text \<open>
  \<open>rune_len s\<close> is the size that \<open>utf8.DecodeRuneInString\<close> reports for the
  encoding at the head of \<open>s\<close>, and 0 where it reports \<open>(RuneError, 1)\<close>: a byte that
  starts no complete, shortest-form encoding of a code point outside the surrogates.
\<close>

definition between :: "nat \<Rightarrow> nat \<Rightarrow> char \<Rightarrow> bool" where
  "between lo hi c \<longleftrightarrow> lo \<le> byte c \<and> byte c \<le> hi"

fun rune_len :: "string \<Rightarrow> nat" where
  "rune_len [] = 0"
| "rune_len (c0 # s) =
     (let b0 = byte c0 in
      if b0 < 0x80 then 1
      else if b0 < 0xC2 then 0
      else if b0 < 0xE0 then
        (case s of c1 # _ \<Rightarrow> if between 0x80 0xBF c1 then 2 else 0 | _ \<Rightarrow> 0)
      else if b0 < 0xF0 then
        (case s of c1 # c2 # _ \<Rightarrow>
           if between (if b0 = 0xE0 then 0xA0 else 0x80) (if b0 = 0xED then 0x9F else 0xBF) c1
              \<and> between 0x80 0xBF c2 then 3 else 0
         | _ \<Rightarrow> 0)
      else if b0 < 0xF5 then
        (case s of c1 # c2 # c3 # _ \<Rightarrow>
           if between (if b0 = 0xF0 then 0x90 else 0x80) (if b0 = 0xF4 then 0x8F else 0xBF) c1
              \<and> between 0x80 0xBF c2 \<and> between 0x80 0xBF c3 then 4 else 0
         | _ \<Rightarrow> 0)
      else 0)"

subsection \<open>Encoding\<close>

text \<open>
  \<open>appendString\<close> with HTML escaping, as \<open>json.Marshal\<close> uses it: bytes below
  \<open>0x20\<close>, the quote, the backslash, the angle brackets and the ampersand are
  escaped (backspace and form feed with the short escapes of Go 1.22 and later), an
  invalid byte is written as the escape of U+FFFD, U+2028 and U+2029 are escaped, and
  every other encoding is copied.
  A nil slice is written as \<open>null\<close>, any other as an array.
\<close>

definition hex :: "nat \<Rightarrow> char" where
  "hex n = ''0123456789abcdef'' ! (n mod 16)"

definition htmlSafe :: "char \<Rightarrow> bool" where
  "htmlSafe c \<longleftrightarrow> 0x20 \<le> byte c \<and> byte c < 0x80 \<and> c \<noteq> dquote \<and> c \<noteq> bslash
     \<and> c \<noteq> CHR ''<'' \<and> c \<noteq> CHR ''>'' \<and> c \<noteq> CHR ''&''"

definition escape_ascii :: "char \<Rightarrow> string" where
  "escape_ascii c =
     (if c = bslash \<or> c = dquote then [bslash, c]
      else if byte c = 0x08 then [bslash, CHR ''b'']
      else if byte c = 0x0C then [bslash, CHR ''f'']
      else if byte c = 0x0A then [bslash, CHR ''n'']
      else if byte c = 0x0D then [bslash, CHR ''r'']
      else if byte c = 0x09 then [bslash, CHR ''t'']
      else [bslash, CHR ''u'', CHR ''0'', CHR ''0'', hex (byte c div 16), hex (byte c mod 16)])"

definition RuneError_utf8 :: string where
  "RuneError_utf8 = [CHR 0xEF, CHR 0xBF, CHR 0xBD]"

function appendString_body :: "string \<Rightarrow> string" where
  "appendString_body [] = []"
| "appendString_body (c # cs) =
     (if byte c < 0x80 then
        (if htmlSafe c then [c] else escape_ascii c) @ appendString_body cs
      else
        (let size = rune_len (c # cs) in
         if size = 0 then bslash # ''ufffd'' @ appendString_body cs
         else if take 3 (c # cs) = [CHR 0xE2, CHR 0x80, CHR 0xA8]
           then bslash # ''u2028'' @ appendString_body (drop 2 cs)
         else if take 3 (c # cs) = [CHR 0xE2, CHR 0x80, CHR 0xA9]
           then bslash # ''u2029'' @ appendString_body (drop 2 cs)
         else take size (c # cs) @ appendString_body (drop (size - 1) cs)))"
  by pat_completeness auto
termination
  by (relation "measure length") auto

definition appendString :: "string \<Rightarrow> string" where
  "appendString s = dquote # appendString_body s @ [dquote]"

fun join_comma :: "string list \<Rightarrow> string" where
  "join_comma [] = []"
| "join_comma [x] = x"
| "join_comma (x # y # ys) = x @ CHR '','' # join_comma (y # ys)"

definition json_Marshal :: "string slice \<Rightarrow> string" where
  "json_Marshal v =
     (case v of
        NilSlice \<Rightarrow> ''null''
      | Slice xs \<Rightarrow> CHR ''['' # join_comma (map appendString xs) @ '']'')"

subsection \<open>Scanner\<close>

text \<open>
  \<open>checkValid\<close> runs the scanner of \<open>scanner.go\<close> over the whole input before anything
  is decoded: one step function per state and a stack of the enclosing arrays and
  objects. \<open>None\<close> is \<open>scanError\<close>.
\<close>

datatype scan_state =
    stateBeginValueOrEmpty | stateBeginValue | stateBeginStringOrEmpty | stateBeginString
  | stateEndValue | stateEndTop
  | stateInString | stateInStringEsc
  | stateInStringEscU | stateInStringEscU1 | stateInStringEscU12 | stateInStringEscU123
  | stateNeg | state1 | state0 | stateDot | stateDot0 | stateE | stateESign | stateE0
  | stateT | stateTr | stateTru | stateF | stateFa | stateFal | stateFals
  | stateN | stateNu | stateNul

datatype parse_state = parseObjectKey | parseObjectValue | parseArrayValue

definition isSpace :: "char \<Rightarrow> bool" where
  "isSpace c \<longleftrightarrow> c = CHR '' '' \<or> byte c = 0x09 \<or> byte c = 0x0D \<or> byte c = 0x0A"

definition isDigit :: "char \<Rightarrow> bool" where
  "isDigit c \<longleftrightarrow> between 0x30 0x39 c"

definition isHex :: "char \<Rightarrow> bool" where
  "isHex c \<longleftrightarrow> between 0x30 0x39 c \<or> between 0x61 0x66 c \<or> between 0x41 0x46 c"

definition maxNestingDepth :: nat where "maxNestingDepth = 10000"

type_synonym scanner = "scan_state \<times> parse_state list"

definition popParseState :: "parse_state list \<Rightarrow> scanner" where
  "popParseState stk = (if tl stk = [] then (stateEndTop, []) else (stateEndValue, tl stk))"

definition pushParseState :: "parse_state \<Rightarrow> scan_state \<Rightarrow> parse_state list \<Rightarrow> scanner option" where
  "pushParseState ps st stk =
     (if length (ps # stk) \<le> maxNestingDepth then Some (st, ps # stk) else None)"

definition endValue :: "parse_state list \<Rightarrow> char \<Rightarrow> scanner option" where
  "endValue stk c =
     (case stk of
        [] \<Rightarrow> if isSpace c then Some (stateEndTop, []) else None
      | ps # rest \<Rightarrow>
          if isSpace c then Some (stateEndValue, stk)
          else (case ps of
                  parseObjectKey \<Rightarrow>
                    if c = CHR '':'' then Some (stateBeginValue, parseObjectValue # rest) else None
                | parseObjectValue \<Rightarrow>
                    if c = CHR '','' then Some (stateBeginString, parseObjectKey # rest)
                    else if c = CHR ''}'' then Some (popParseState stk)
                    else None
                | parseArrayValue \<Rightarrow>
                    if c = CHR '','' then Some (stateBeginValue, stk)
                    else if c = CHR '']'' then Some (popParseState stk)
                    else None))"

definition beginValue :: "parse_state list \<Rightarrow> char \<Rightarrow> scanner option" where
  "beginValue stk c =
     (if isSpace c then Some (stateBeginValue, stk)
      else if c = CHR ''{'' then pushParseState parseObjectKey stateBeginStringOrEmpty stk
      else if c = CHR ''['' then pushParseState parseArrayValue stateBeginValueOrEmpty stk
      else if c = dquote then Some (stateInString, stk)
      else if c = CHR ''-'' then Some (stateNeg, stk)
      else if c = CHR ''0'' then Some (state0, stk)
      else if c = CHR ''t'' then Some (stateT, stk)
      else if c = CHR ''f'' then Some (stateF, stk)
      else if c = CHR ''n'' then Some (stateN, stk)
      else if between 0x31 0x39 c then Some (state1, stk)
      else None)"

definition expect :: "char \<Rightarrow> scan_state \<Rightarrow> parse_state list \<Rightarrow> char \<Rightarrow> scanner option" where
  "expect want st stk c = (if c = want then Some (st, stk) else None)"

fun step :: "scan_state \<Rightarrow> parse_state list \<Rightarrow> char \<Rightarrow> scanner option" where
  "step stateBeginValueOrEmpty stk c =
     (if isSpace c then Some (stateBeginValueOrEmpty, stk)
      else if c = CHR '']'' then endValue stk c
      else beginValue stk c)"
| "step stateBeginValue stk c = beginValue stk c"
| "step stateBeginStringOrEmpty stk c =
     (if isSpace c then Some (stateBeginStringOrEmpty, stk)
      else if c = CHR ''}'' then endValue (parseObjectValue # tl stk) c
      else if c = dquote then Some (stateInString, stk)
      else None)"
| "step stateBeginString stk c =
     (if isSpace c then Some (stateBeginString, stk)
      else if c = dquote then Some (stateInString, stk)
      else None)"
| "step stateEndValue stk c = endValue stk c"
| "step stateEndTop stk c = (if isSpace c then Some (stateEndTop, stk) else None)"
| "step stateInString stk c =
     (if c = dquote then Some (stateEndValue, stk)
      else if c = bslash then Some (stateInStringEsc, stk)
      else if byte c < 0x20 then None
      else Some (stateInString, stk))"
| "step stateInStringEsc stk c =
     (if c \<in> set ''bfnrt/'' \<or> c = bslash \<or> c = dquote then Some (stateInString, stk)
      else if c = CHR ''u'' then Some (stateInStringEscU, stk)
      else None)"
| "step stateInStringEscU stk c = (if isHex c then Some (stateInStringEscU1, stk) else None)"
| "step stateInStringEscU1 stk c = (if isHex c then Some (stateInStringEscU12, stk) else None)"
| "step stateInStringEscU12 stk c = (if isHex c then Some (stateInStringEscU123, stk) else None)"
| "step stateInStringEscU123 stk c = (if isHex c then Some (stateInString, stk) else None)"
| "step stateNeg stk c =
     (if c = CHR ''0'' then Some (state0, stk)
      else if between 0x31 0x39 c then Some (state1, stk)
      else None)"
| "step state1 stk c =
     (if isDigit c then Some (state1, stk)
      else if c = CHR ''.'' then Some (stateDot, stk)
      else if c = CHR ''e'' \<or> c = CHR ''E'' then Some (stateE, stk)
      else endValue stk c)"
| "step state0 stk c =
     (if c = CHR ''.'' then Some (stateDot, stk)
      else if c = CHR ''e'' \<or> c = CHR ''E'' then Some (stateE, stk)
      else endValue stk c)"
| "step stateDot stk c = (if isDigit c then Some (stateDot0, stk) else None)"
| "step stateDot0 stk c =
     (if isDigit c then Some (stateDot0, stk)
      else if c = CHR ''e'' \<or> c = CHR ''E'' then Some (stateE, stk)
      else endValue stk c)"
| "step stateE stk c =
     (if c = CHR ''+'' \<or> c = CHR ''-'' then Some (stateESign, stk)
      else if isDigit c then Some (stateE0, stk)
      else None)"
| "step stateESign stk c = (if isDigit c then Some (stateE0, stk) else None)"
| "step stateE0 stk c = (if isDigit c then Some (stateE0, stk) else endValue stk c)"
| "step stateT stk c = expect (CHR ''r'') stateTr stk c"
| "step stateTr stk c = expect (CHR ''u'') stateTru stk c"
| "step stateTru stk c = expect (CHR ''e'') stateEndValue stk c"
| "step stateF stk c = expect (CHR ''a'') stateFa stk c"
| "step stateFa stk c = expect (CHR ''l'') stateFal stk c"
| "step stateFal stk c = expect (CHR ''s'') stateFals stk c"
| "step stateFals stk c = expect (CHR ''e'') stateEndValue stk c"
| "step stateN stk c = expect (CHR ''u'') stateNu stk c"
| "step stateNu stk c = expect (CHR ''l'') stateNul stk c"
| "step stateNul stk c = expect (CHR ''l'') stateEndValue stk c"

fun scan :: "scanner \<Rightarrow> string \<Rightarrow> scanner option" where
  "scan s [] = Some s"
| "scan (st, stk) (c # cs) =
     (case step st stk c of None \<Rightarrow> None | Some s' \<Rightarrow> scan s' cs)"

definition eof :: "scanner \<Rightarrow> bool" where
  "eof s =
     (if fst s = stateEndTop then True
      else (case step (fst s) (snd s) (CHR '' '') of
              Some (st, _) \<Rightarrow> st = stateEndTop
            | None \<Rightarrow> False))"

definition checkValid :: "string \<Rightarrow> bool" where
  "checkValid data =
     (case scan (stateBeginValue, []) data of None \<Rightarrow> False | Some s \<Rightarrow> eof s)"

subsection \<open>Decoding into a slice of strings\<close>

text \<open>
  \<open>unquote_body\<close> reads a string literal from behind its opening quote, as
  \<open>unquoteBytes\<close> does: it resolves the escapes, pairs surrogates, and replaces an
  invalid byte by U+FFFD; the result is the text and the input behind the closing quote.
  On an input that \<open>checkValid\<close> has accepted, an array element that is no string
  (a number, \<open>true\<close>, \<open>false\<close>, \<open>null\<close>, a nested array or object) leaves its
  element the empty string, and the error that is reported for it is the one
  \<open>GetPermissions\<close> drops.
\<close>

definition hexval :: "char \<Rightarrow> nat option" where
  "hexval c =
     (if between 0x30 0x39 c then Some (byte c - 0x30)
      else if between 0x61 0x66 c then Some (byte c - 0x61 + 10)
      else if between 0x41 0x46 c then Some (byte c - 0x41 + 10)
      else None)"

fun getu4 :: "string \<Rightarrow> nat option" where
  "getu4 (b # u # h1 # h2 # h3 # h4 # _) =
     (if b = bslash \<and> u = CHR ''u'' then
        (case (hexval h1, hexval h2, hexval h3, hexval h4) of
           (Some a, Some b, Some c, Some d) \<Rightarrow> Some (((a * 16 + b) * 16 + c) * 16 + d)
         | _ \<Rightarrow> None)
      else None)"
| "getu4 _ = None"

definition EncodeRune :: "nat \<Rightarrow> string" where
  "EncodeRune r =
     (if r < 0x80 then [char_of r]
      else if r < 0x800 then [char_of (0xC0 + r div 64), char_of (0x80 + r mod 64)]
      else if (0xD800 \<le> r \<and> r < 0xE000) \<or> r > 0x10FFFF then RuneError_utf8
      else if r < 0x10000 then
        [char_of (0xE0 + r div 4096), char_of (0x80 + r div 64 mod 64), char_of (0x80 + r mod 64)]
      else
        [char_of (0xF0 + r div 262144), char_of (0x80 + r div 4096 mod 64),
         char_of (0x80 + r div 64 mod 64), char_of (0x80 + r mod 64)])"

definition IsSurrogate :: "nat \<Rightarrow> bool" where
  "IsSurrogate r \<longleftrightarrow> 0xD800 \<le> r \<and> r < 0xE000"

definition utf16_DecodeRune :: "nat \<Rightarrow> nat option \<Rightarrow> nat" where
  "utf16_DecodeRune r1 r2 =
     (case r2 of
        Some r2' \<Rightarrow>
          if 0xD800 \<le> r1 \<and> r1 < 0xDC00 \<and> 0xDC00 \<le> r2' \<and> r2' < 0xE000
          then (r1 - 0xD800) * 1024 + (r2' - 0xDC00) + 0x10000
          else 0xFFFD
      | None \<Rightarrow> 0xFFFD)"

definition unescape :: "char \<Rightarrow> char option" where
  "unescape e =
     (if e = dquote \<or> e = bslash \<or> e = CHR ''/'' \<or> e = CHR 0x27 then Some e
      else if e = CHR ''b'' then Some (CHR 0x08)
      else if e = CHR ''f'' then Some (CHR 0x0C)
      else if e = CHR ''n'' then Some (CHR 0x0A)
      else if e = CHR ''r'' then Some (CHR 0x0D)
      else if e = CHR ''t'' then Some (CHR 0x09)
      else None)"

definition emit :: "string \<Rightarrow> (string \<times> string) option \<Rightarrow> (string \<times> string) option" where
  "emit out r = map_option (\<lambda>(t, rest). (out @ t, rest)) r"

function unquote_body :: "string \<Rightarrow> (string \<times> string) option" where
  "unquote_body [] = None"
| "unquote_body (c # s) =
     (if c = dquote then Some ([], s)
      else if c = bslash then
        (case s of
           [] \<Rightarrow> None
         | e # s' \<Rightarrow>
             if e = CHR ''u'' then
               (case getu4 (c # s) of
                  None \<Rightarrow> None
                | Some rr \<Rightarrow>
                    if IsSurrogate rr then
                      (let dec = utf16_DecodeRune rr (getu4 (drop 4 s')) in
                       if dec \<noteq> 0xFFFD then emit (EncodeRune dec) (unquote_body (drop 10 s'))
                       else emit (EncodeRune 0xFFFD) (unquote_body (drop 4 s')))
                    else emit (EncodeRune rr) (unquote_body (drop 4 s')))
             else
               (case unescape e of
                  None \<Rightarrow> None
                | Some b \<Rightarrow> emit [b] (unquote_body s')))
      else if byte c < 0x20 then None
      else if byte c < 0x80 then emit [c] (unquote_body s)
      else
        (let size = rune_len (c # s) in
         if size = 0 then emit RuneError_utf8 (unquote_body s)
         else emit (take size (c # s)) (unquote_body (drop (size - 1) s))))"
  by pat_completeness auto
termination
  by (relation "measure length") auto

fun skip_space :: "string \<Rightarrow> string" where
  "skip_space [] = []"
| "skip_space (c # s) = (if isSpace c then skip_space s else c # s)"

text \<open>Skipping a nested array or object from just after its opening bracket.\<close>

fun skip_nested :: "nat \<Rightarrow> bool \<Rightarrow> bool \<Rightarrow> string \<Rightarrow> string" where
  "skip_nested depth inString esc [] = []"
| "skip_nested depth True True (c # s) = skip_nested depth True False s"
| "skip_nested depth True False (c # s) =
     (if c = bslash then skip_nested depth True True s
      else if c = dquote then skip_nested depth False False s
      else skip_nested depth True False s)"
| "skip_nested depth False esc (c # s) =
     (if c = dquote then skip_nested depth True False s
      else if c = CHR ''['' \<or> c = CHR ''{'' then skip_nested (Suc depth) False False s
      else if c = CHR '']'' \<or> c = CHR ''}'' then
        (if depth \<le> 1 then s else skip_nested (depth - 1) False False s)
      else skip_nested depth False False s)"

definition isDelim :: "char \<Rightarrow> bool" where
  "isDelim c \<longleftrightarrow> isSpace c \<or> c = CHR '','' \<or> c = CHR '']'' \<or> c = CHR ''}''"

text \<open>
  One array element decoded into a \<open>string\<close> destination: the element and the input
  after it.
\<close>

definition decode_elem :: "string \<Rightarrow> string \<times> string" where
  "decode_elem s =
     (case s of
        [] \<Rightarrow> ([], [])
      | c # r \<Rightarrow>
          if c = dquote then
            (case unquote_body r of Some (t, rest) \<Rightarrow> (t, rest) | None \<Rightarrow> ([], []))
          else if c = CHR ''['' \<or> c = CHR ''{'' then ([], skip_nested 1 False False r)
          else ([], dropWhile (\<lambda>c. \<not> isDelim c) r))"

declare unquote_body.simps(2) [simp del] appendString_body.simps(2) [simp del]

lemma emit_length: "emit out r = Some (t, rest) \<Longrightarrow> \<exists>t'. r = Some (t', rest)"
  by (auto simp: emit_def)

lemma unquote_body_length_aux:
  "length s \<le> n \<Longrightarrow> unquote_body s = Some (t, rest) \<Longrightarrow> length rest < length s"
proof (induction n arbitrary: s t rest)
  case 0
  then show ?case by simp
next
  case (Suc n)
  show ?case
  proof (cases s)
    case Nil
    with Suc.prems show ?thesis by simp
  next
    case (Cons c s0)
    have E: "\<And>out s'. emit out (unquote_body s') = Some (t, rest) \<Longrightarrow> length s' \<le> n
                \<Longrightarrow> length rest < length s'"
      using Suc.IH emit_length by blast
    from Suc.prems have "length s0 \<le> n" and "unquote_body (c # s0) = Some (t, rest)"
      by (simp_all add: Cons)
    then have "length rest < Suc (length s0)"
      by (subst (asm) unquote_body.simps(2))
         (simp add: Let_def del: getu4.simps rune_len.simps
            split: if_splits list.splits option.splits; (drule E, simp, simp))
    then show ?thesis by (simp add: Cons)
  qed
qed

lemma unquote_body_length: "unquote_body s = Some (t, rest) \<Longrightarrow> length rest < length s"
  by (rule unquote_body_length_aux [OF order_refl])

lemma length_skip_space: "length (skip_space s) \<le> length s"
  by (induction s) auto

lemma length_skip_nested: "length (skip_nested d i e s) \<le> length s"
  by (induction d i e s rule: skip_nested.induct) auto

lemma length_decode_elem: "length (snd (decode_elem s)) \<le> length s"
  using length_dropWhile_le [of "\<lambda>c. \<not> isDelim c"]
  by (auto simp: decode_elem_def le_SucI length_skip_nested
      split: list.splits option.splits dest: unquote_body_length)

text \<open>
  The elements of an array from its first element on (\<open>array_values\<close>) and from behind
  the opening bracket (\<open>array\<close>). \<open>json.Unmarshal\<close> leaves the destination as it was,
  nil in \<open>GetPermissions\<close>, when the input is no valid JSON or no array, and sets it to
  the elements otherwise; an empty array gives an empty slice that is not nil.
\<close>

function array_values :: "string \<Rightarrow> string list" where
  "array_values s =
     (case skip_space (snd (decode_elem s)) of
        [] \<Rightarrow> [fst (decode_elem s)]
      | c # r \<Rightarrow>
          if c = CHR '','' then fst (decode_elem s) # array_values (skip_space r)
          else [fst (decode_elem s)])"
  by pat_completeness auto
termination
proof (relation "measure length", goal_cases)
  case 1
  show ?case by simp
next
  case (2 s c r)
  have "length (skip_space r) \<le> length r" by (rule length_skip_space)
  also have "length r < length (skip_space (snd (decode_elem s)))" using 2 by simp
  also have "\<dots> \<le> length (snd (decode_elem s))" by (rule length_skip_space)
  also have "\<dots> \<le> length s" by (rule length_decode_elem)
  finally show ?case by simp
qed

definition array :: "string \<Rightarrow> string list" where
  "array s =
     (case skip_space s of
        [] \<Rightarrow> []
      | c # r \<Rightarrow> if c = CHR '']'' then [] else array_values (c # r))"

definition json_Unmarshal :: "string \<Rightarrow> string slice" where
  "json_Unmarshal data =
     (if \<not> checkValid data then NilSlice
      else (case skip_space data of
              [] \<Rightarrow> NilSlice
            | c # s \<Rightarrow> if c = CHR ''['' then Slice (array s) else NilSlice))"

section \<open>What the JSON codec does to a string\<close>

text \<open>
  \<open>encoding/json\<close> coerces strings to valid UTF-8: a byte that starts no valid encoding
  is replaced by the replacement character U+FFFD, everything else is kept.
\<close>

function coerce_utf8 :: "string \<Rightarrow> string" where
  "coerce_utf8 [] = []"
| "coerce_utf8 (c # cs) =
     (if byte c < 0x80 then c # coerce_utf8 cs
      else
        (let size = rune_len (c # cs) in
         if size = 0 then RuneError_utf8 @ coerce_utf8 cs
         else take size (c # cs) @ coerce_utf8 (drop (size - 1) cs)))"
  by pat_completeness auto
termination
  by (relation "measure length") auto

function valid_utf8 :: "string \<Rightarrow> bool" where
  "valid_utf8 [] = True"
| "valid_utf8 (c # cs) =
     (rune_len (c # cs) \<noteq> 0 \<and> valid_utf8 (drop (rune_len (c # cs) - 1) cs))"
  by pat_completeness auto
termination
  by (relation "measure length") auto

section \<open>Identifiers (github.com/google/uuid)\<close>

text \<open>
  A \<open>uuid.UUID\<close> is sixteen bytes; \<open>String()\<close> prints them in lower-case hexadecimal
  as \<open>xxxxxxxx-xxxx-xxxx-xxxx-xxxxxxxxxxxx\<close>.
\<close>

type_synonym uuid = "128 word"

definition uuid_Nil :: uuid where "uuid_Nil = 0"

definition uuid_byte :: "uuid \<Rightarrow> nat \<Rightarrow> nat" where
  "uuid_byte u i = unat (drop_bit (8 * (15 - i)) u) mod 256"

definition hex_byte :: "nat \<Rightarrow> string" where
  "hex_byte b = [hex (b div 16), hex (b mod 16)]"

definition hex_bytes :: "uuid \<Rightarrow> nat list \<Rightarrow> string" where
  "hex_bytes u is = concat (map (\<lambda>i. hex_byte (uuid_byte u i)) is)"

definition uuid_String :: "uuid \<Rightarrow> string" where
  "uuid_String u =
     hex_bytes u [0, 1, 2, 3] @ CHR ''-'' # hex_bytes u [4, 5] @ CHR ''-'' # hex_bytes u [6, 7]
       @ CHR ''-'' # hex_bytes u [8, 9] @ CHR ''-'' # hex_bytes u [10, 11, 12, 13, 14, 15]"

section \<open>Data model (models.go)\<close>

text \<open>
  The records keep the columns the handlers read or write; the bookkeeping columns
  \<open>CreatedAt\<close>, \<open>UpdatedAt\<close> and \<open>Avatar\<close> are left out. The roles of a user are
  carried with the user, as \<open>Preload("Roles")\<close> delivers them.
\<close>

record role =
  role_ID :: uuid
  role_Name :: string
  role_Description :: string
  role_Permissions :: string
  role_IsActive :: bool

definition GetPermissions :: "role \<Rightarrow> string slice" where
  "GetPermissions r =
     (if role_Permissions r = '''' then Slice []
      else json_Unmarshal (role_Permissions r))"

definition SetPermissions :: "string slice \<Rightarrow> role \<Rightarrow> role" where
  "SetPermissions permissions r =
     (let permissions' = (if permissions = NilSlice then Slice [] else permissions)
      in r\<lparr>role_Permissions := json_Marshal permissions'\<rparr>)"

text \<open>Ranging over a slice visits no element when the slice is nil.\<close>

definition elems :: "'a slice \<Rightarrow> 'a list" where
  "elems v = (case v of NilSlice \<Rightarrow> [] | Slice xs \<Rightarrow> xs)"

record user =
  user_ID :: uuid
  user_DeletedAt :: "time option"
  user_Username :: string
  user_Email :: string
  user_Password :: string
  user_FirstName :: string
  user_LastName :: string
  user_IsActive :: bool
  user_IsVerified :: bool
  user_LastLoginAt :: "time option"
  user_Roles :: "role list"

definition zero_user :: user where
  "zero_user = \<lparr>user_ID = uuid_Nil, user_DeletedAt = None, user_Username = '''',
     user_Email = '''', user_Password = '''', user_FirstName = '''', user_LastName = '''',
     user_IsActive = False, user_IsVerified = False, user_LastLoginAt = None,
     user_Roles = []\<rparr>"

text \<open>
  \<open>session_User\<close> is the relationship field of the struct: it is no column, a stored
  row has it zero, and \<open>Preload("User.Roles")\<close> fills it in.
\<close>

record session =
  session_ID :: uuid
  session_UserID :: uuid
  session_Token :: string
  session_ExpiresAt :: time
  session_IPAddress :: string
  session_UserAgent :: string
  session_IsActive :: bool
  session_User :: user

definition IsExpired :: "session \<Rightarrow> time \<Rightarrow> bool" where
  "IsExpired s now \<longleftrightarrow> now > session_ExpiresAt s"

record LoginRequest =
  req_Username :: string
  req_Password :: string

record LoginResponse =
  resp_User :: user
  resp_AccessToken :: string
  resp_RefreshToken :: string
  resp_ExpiresIn :: int

record RefreshTokenRequest =
  req_RefreshToken :: string

record pagination =
  current_page :: int
  total_pages :: int
  total_items :: int
  items_per_page :: int

section \<open>HTTP responses and middleware outcomes\<close>

text \<open>
  A handler ends by writing one JSON response (\<open>c.JSON(status, body)\<close>). A middleware
  either aborts the chain with a response or calls \<open>c.Next()\<close>, handing the request
  context on. \<open>ErrorBody msg\<close> is \<open>gin.H{"error": msg}\<close> and \<open>MessageBody msg\<close> is
  \<open>gin.H{"message": msg}\<close>.
\<close>

datatype body =
    ErrorBody string
  | MessageBody string
  | LoginBody LoginResponse
  | UsersBody "user list" pagination

datatype response = Response (status: nat) (body: body)

datatype 'c mw = Abort response | Next 'c

definition StatusOK :: nat where "StatusOK = 200"
definition StatusBadRequest :: nat where "StatusBadRequest = 400"
definition StatusUnauthorized :: nat where "StatusUnauthorized = 401"
definition StatusForbidden :: nat where "StatusForbidden = 403"
definition StatusTooManyRequests :: nat where "StatusTooManyRequests = 429"
definition StatusInternalServerError :: nat where "StatusInternalServerError = 500"

text \<open>
  \<open>c.ShouldBindJSON(&req)\<close> either fails with an error text or delivers the bound
  request.
\<close>

datatype 'r bind = BindError string | Bound 'r

text \<open>What \<open>AuthMiddleware\<close> stores in the request context with \<open>c.Set\<close>.\<close>

record gin_context =
  ctx_user :: "user option"
  ctx_user_id :: "uuid option"
  ctx_session :: "session option"

definition empty_context :: gin_context where
  "empty_context = \<lparr>ctx_user = None, ctx_user_id = None, ctx_session = None\<rparr>"

section \<open>Rate limiter (middleware.go, RateLimit)\<close>

text \<open>
  The closure owns \<open>clients\<close>, a map from client IP to the instants of its recorded
  requests. One invocation prunes the caller's list when the key exists, rejects when
  the list has 100 entries or more, and otherwise appends the current instant.
\<close>

type_synonym clients = "string \<rightharpoonup> time list"

definition requests_of :: "clients \<Rightarrow> string \<Rightarrow> time list" where
  "requests_of clients ip = (case clients ip of None \<Rightarrow> [] | Some ts \<Rightarrow> ts)"

definition clean_old :: "time \<Rightarrow> clients \<Rightarrow> string \<Rightarrow> clients" where
  "clean_old now clients ip =
     (case clients ip of
        None \<Rightarrow> clients
      | Some requests \<Rightarrow>
          clients(ip \<mapsto> filter (\<lambda>reqTime. time_Sub now reqTime \<le> Minute) requests))"

definition RateLimit :: "clients \<Rightarrow> string \<Rightarrow> time \<Rightarrow> clients \<times> unit mw" where
  "RateLimit clients clientIP now =
     (let clients1 = clean_old now clients clientIP in
      if length (requests_of clients1 clientIP) \<ge> 100
      then (clients1, Abort (Response StatusTooManyRequests (ErrorBody ''Rate limit exceeded'')))
      else (clients1(clientIP \<mapsto> requests_of clients1 clientIP @ [now]), Next ()))"

text \<open>The entries of a client that are at most one minute old at \<open>now\<close>.\<close>

definition recent :: "time \<Rightarrow> clients \<Rightarrow> string \<Rightarrow> time list" where
  "recent now clients ip = filter (\<lambda>t. now - t \<le> Minute) (requests_of clients ip)"

section \<open>Configuration and libraries\<close>

record JWTConfig =
  JWT_Secret :: string
  JWT_Expiry :: int
  JWT_RefreshExp :: int

text \<open>
  The handlers call libraries that are no part of the repository. They are parameters
  of the model:
  \<^item> \<open>bcrypt_ok hash password\<close>: \<open>bcrypt.CompareHashAndPassword\<close> returns no error;
  \<^item> \<open>jwt_decode\<close>: the compact serialisation split and decoded into the signing
    method named by the header and the claims (\<open>jwt.MapClaims\<close>), \<open>None\<close> when
    malformed or the algorithm is unknown;
  \<^item> \<open>jwt_verify token key\<close>: the signature of the token verifies under the key;
  \<^item> \<open>jwt_claims_valid claims now\<close>: the registered claims (\<open>exp\<close>, \<open>nbf\<close>) hold at
    \<open>now\<close>;
  \<^item> \<open>jwt_SignedString claims key\<close>: the HS256 serialisation of fresh claims, \<open>None\<close>
    when signing fails;
  \<^item> \<open>pg_uuid_in\<close>: the store reading a text parameter as a \<open>uuid\<close> value, \<open>None\<close>
    when the text is no uuid (the query then fails);
  \<^item> \<open>ilike pattern text\<close>: the store's case-insensitive pattern match.
\<close>

datatype signing_method =
    SigningMethodHMAC | SigningMethodRSA | SigningMethodRSAPSS
  | SigningMethodECDSA | SigningMethodEd25519 | SigningMethodNone

datatype jvalue = JString string | JNumber int | JBool bool | JNull | JArray | JObject

type_synonym claims = "string \<rightharpoonup> jvalue"

record lib =
  bcrypt_ok :: "string \<Rightarrow> string \<Rightarrow> bool"
  jwt_decode :: "string \<Rightarrow> (signing_method \<times> claims) option"
  jwt_verify :: "string \<Rightarrow> string \<Rightarrow> bool"
  jwt_claims_valid :: "claims \<Rightarrow> time \<Rightarrow> bool"
  jwt_SignedString :: "claims \<Rightarrow> string \<Rightarrow> string option"
  pg_uuid_in :: "string \<Rightarrow> uuid option"
  ilike :: "string \<Rightarrow> string \<Rightarrow> bool"

text \<open>
  What one request draws from its surroundings: the clock, the two values of
  \<open>uuid.New()\<close> (the session token, and the primary key given by \<open>BeforeCreate\<close>),
  the client address and the user agent.
\<close>

record request_env =
  env_now :: time
  env_token_uuid :: uuid
  env_id_uuid :: uuid
  env_ClientIP :: string
  env_UserAgent :: string

section \<open>The store (gorm over PostgreSQL)\<close>

text \<open>
  The store holds the two tables the modelled handlers use, in storage order, and a flag
  telling whether it answers at all: when it does not, every call returns an error.
\<close>

record db =
  db_up :: bool
  users :: "user list"
  sessions :: "session list"

datatype db_error = ErrRecordNotFound | ErrStore

text \<open>Soft delete: queries on users see the rows whose \<open>DeletedAt\<close> is unset.\<close>

definition visible_users :: "db \<Rightarrow> user list" where
  "visible_users d = filter (\<lambda>u. user_DeletedAt u = None) (users d)"

text \<open>\<open>First\<close> orders by primary key and takes one row.\<close>

fun first_by :: "('a \<Rightarrow> uuid) \<Rightarrow> 'a list \<Rightarrow> 'a option" where
  "first_by key [] = None"
| "first_by key (x # xs) =
     (case first_by key xs of
        None \<Rightarrow> Some x
      | Some y \<Rightarrow> if key x \<le> key y then Some x else Some y)"

text \<open>\<open>Where("username = ? OR email = ?", name, name).Preload("Roles").First(&user)\<close>\<close>

definition find_user_by_login :: "db \<Rightarrow> string \<Rightarrow> db_error + user" where
  "find_user_by_login d name =
     (if \<not> db_up d then Inl ErrStore
      else (case first_by user_ID
                   (filter (\<lambda>u. user_Username u = name \<or> user_Email u = name) (visible_users d)) of
              None \<Rightarrow> Inl ErrRecordNotFound
            | Some u \<Rightarrow> Inr u))"

text \<open>\<open>Preload("User.Roles")\<close>: the owning user, or the zero value when no visible row has the key.\<close>

definition preload_User :: "db \<Rightarrow> session \<Rightarrow> session" where
  "preload_User d s =
     s\<lparr>session_User :=
         (case find (\<lambda>u. user_ID u = session_UserID s) (visible_users d) of
            None \<Rightarrow> zero_user
          | Some u \<Rightarrow> u)\<rparr>"

text \<open>
  \<open>Where("token = ? AND user_id = ? AND is_active = true", sessionToken, userID)
     .Preload("User.Roles").First(&session)\<close>
\<close>

definition find_active_session :: "lib \<Rightarrow> db \<Rightarrow> string \<Rightarrow> string \<Rightarrow> db_error + session" where
  "find_active_session L d sessionToken userID =
     (if \<not> db_up d then Inl ErrStore
      else (case pg_uuid_in L userID of
              None \<Rightarrow> Inl ErrStore
            | Some uid \<Rightarrow>
                (case first_by session_ID
                        (filter (\<lambda>s. session_Token s = sessionToken \<and> session_UserID s = uid
                                      \<and> session_IsActive s) (sessions d)) of
                   None \<Rightarrow> Inl ErrRecordNotFound
                 | Some s \<Rightarrow> Inr (preload_User d s))))"

text \<open>The columns of a session: the relationship field is not stored.\<close>

definition row_of :: "session \<Rightarrow> session" where
  "row_of s = s\<lparr>session_User := zero_user\<rparr>"

text \<open>
  \<open>db.Create(session)\<close>: the \<open>BeforeCreate\<close> hook gives a fresh primary key when the key
  is nil; a field declared with a default (\<open>IsActive\<close>, \<open>gorm:"default:true"\<close>) that has
  the zero value is given the default, in the row and in the value of the caller; the
  insert fails on a duplicate primary key and on a duplicate token (\<open>uniqueIndex\<close>). The
  result is the new store and the session as the caller sees it.
\<close>

definition BeforeCreate :: "request_env \<Rightarrow> session \<Rightarrow> session" where
  "BeforeCreate env s =
     (if session_ID s = uuid_Nil then s\<lparr>session_ID := env_id_uuid env\<rparr> else s)"

definition column_defaults :: "session \<Rightarrow> session" where
  "column_defaults s = (if \<not> session_IsActive s then s\<lparr>session_IsActive := True\<rparr> else s)"

definition insert_session :: "db \<Rightarrow> session \<Rightarrow> db_error + db" where
  "insert_session d s =
     (if \<not> db_up d then Inl ErrStore
      else if session_ID s \<in> session_ID ` set (sessions d) then Inl ErrStore
      else if session_Token s \<in> session_Token ` set (sessions d) then Inl ErrStore
      else Inr (d\<lparr>sessions := sessions d @ [row_of s]\<rparr>))"

definition Create_session :: "request_env \<Rightarrow> db \<Rightarrow> session \<Rightarrow> db_error + (db \<times> session)" where
  "Create_session env d s =
     (let s' = column_defaults (BeforeCreate env s) in
      case insert_session d s' of Inl e \<Rightarrow> Inl e | Inr d' \<Rightarrow> Inr (d', s'))"

text \<open>
  \<open>db.Save(session)\<close>: without a primary key it creates; otherwise it updates the row
  with that key, all columns written as they are, and when no row has the key it
  inserts, as \<open>Create\<close> does but without the hooks. An update that would give two rows
  the same token fails.
\<close>

definition update_session :: "db \<Rightarrow> session \<Rightarrow> db_error + db" where
  "update_session d s =
     (if \<not> db_up d then Inl ErrStore
      else if \<exists>r \<in> set (sessions d). session_ID r \<noteq> session_ID s \<and> session_Token r = session_Token s
        then Inl ErrStore
      else Inr (d\<lparr>sessions :=
                   map (\<lambda>r. if session_ID r = session_ID s then row_of s else r) (sessions d)\<rparr>))"

definition Save_session :: "request_env \<Rightarrow> db \<Rightarrow> session \<Rightarrow> db_error + db" where
  "Save_session env d s =
     (if session_ID s = uuid_Nil then
        (case Create_session env d s of Inl e \<Rightarrow> Inl e | Inr (d', _) \<Rightarrow> Inr d')
      else if session_ID s \<in> session_ID ` set (sessions d) then update_session d s
      else insert_session d (column_defaults s))"

text \<open>
  \<open>h.db.Save(&user)\<close> in \<open>Login\<close>, whose error is not looked at: the row with the
  user's key is rewritten when the store answers.
\<close>

definition Save_user :: "db \<Rightarrow> user \<Rightarrow> db" where
  "Save_user d u =
     (if \<not> db_up d then d
      else d\<lparr>users := map (\<lambda>r. if user_ID r = user_ID u then u else r) (users d)\<rparr>)"

section \<open>Tokens (github.com/golang-jwt/jwt/v5)\<close>

text \<open>
  \<open>jwt.Parse\<close> decodes the token, asks the key function for the key, verifies the
  signature and validates the registered claims; the result is the claims when no step
  fails and the token is valid. The claims of a token parsed this way are always
  \<open>jwt.MapClaims\<close>, so the branch of the handlers for another claims type is never
  taken.
\<close>

definition jwt_Parse ::
  "lib \<Rightarrow> time \<Rightarrow> string \<Rightarrow> (signing_method \<Rightarrow> string + string) \<Rightarrow> claims option" where
  "jwt_Parse L now tokenString keyFunc =
     (case jwt_decode L tokenString of
        None \<Rightarrow> None
      | Some (method, cl) \<Rightarrow>
          (case keyFunc method of
             Inl err \<Rightarrow> None
           | Inr key \<Rightarrow>
               if jwt_verify L tokenString key \<and> jwt_claims_valid L cl now then Some cl
               else None))"

text \<open>The type assertion \<open>claims[k].(string)\<close>.\<close>

definition claim_string :: "claims \<Rightarrow> string \<Rightarrow> string option" where
  "claim_string cl k = (case cl k of Some (JString s) \<Rightarrow> Some s | _ \<Rightarrow> None)"

definition access_claims :: "JWTConfig \<Rightarrow> time \<Rightarrow> uuid \<Rightarrow> string \<Rightarrow> claims" where
  "access_claims cfg now userID sessionToken =
     [''user_id'' \<mapsto> JString (uuid_String userID),
      ''session_token'' \<mapsto> JString sessionToken,
      ''type'' \<mapsto> JString ''access'',
      ''exp'' \<mapsto> JNumber (Unix (now + JWT_Expiry cfg)),
      ''iat'' \<mapsto> JNumber (Unix now)]"

definition generateAccessToken ::
  "lib \<Rightarrow> JWTConfig \<Rightarrow> time \<Rightarrow> uuid \<Rightarrow> string \<Rightarrow> string option" where
  "generateAccessToken L cfg now userID sessionToken =
     jwt_SignedString L (access_claims cfg now userID sessionToken) (JWT_Secret cfg)"

definition refresh_claims :: "JWTConfig \<Rightarrow> time \<Rightarrow> uuid \<Rightarrow> string \<Rightarrow> claims" where
  "refresh_claims cfg now userID sessionToken =
     [''user_id'' \<mapsto> JString (uuid_String userID),
      ''session_token'' \<mapsto> JString sessionToken,
      ''type'' \<mapsto> JString ''refresh'',
      ''exp'' \<mapsto> JNumber (Unix (now + JWT_RefreshExp cfg)),
      ''iat'' \<mapsto> JNumber (Unix now)]"

definition generateRefreshToken ::
  "lib \<Rightarrow> JWTConfig \<Rightarrow> time \<Rightarrow> uuid \<Rightarrow> string \<Rightarrow> string option" where
  "generateRefreshToken L cfg now userID sessionToken =
     jwt_SignedString L (refresh_claims cfg now userID sessionToken) (JWT_Secret cfg)"

text \<open>\<open>int64(h.cfg.JWT.Expiry.Seconds())\<close>\<close>

definition ExpiresIn :: "JWTConfig \<Rightarrow> int" where
  "ExpiresIn cfg = int64_of_float64 (Seconds (JWT_Expiry cfg))"

section \<open>Request Authenticator (middleware.go, AuthMiddleware)\<close>

definition TrimPrefix :: "string \<Rightarrow> string \<Rightarrow> string" where
  "TrimPrefix s prefix =
     (if take (length prefix) s = prefix then drop (length prefix) s else s)"

definition auth_keyFunc :: "JWTConfig \<Rightarrow> signing_method \<Rightarrow> string + string" where
  "auth_keyFunc cfg method =
     (if method \<noteq> SigningMethodHMAC then Inl ''unexpected signing method''
      else Inr (JWT_Secret cfg))"

definition unauthorized :: "string \<Rightarrow> response" where
  "unauthorized msg = Response StatusUnauthorized (ErrorBody msg)"

definition AuthMiddleware ::
  "lib \<Rightarrow> JWTConfig \<Rightarrow> db \<Rightarrow> time \<Rightarrow> string \<Rightarrow> gin_context mw" where
  "AuthMiddleware L cfg d now authHeader =
     (if authHeader = '''' then Abort (unauthorized ''Authorization header is required'')
      else let tokenString = TrimPrefix authHeader ''Bearer '' in
      if tokenString = authHeader then Abort (unauthorized ''Bearer token is required'')
      else
        (case jwt_Parse L now tokenString (auth_keyFunc cfg) of
           None \<Rightarrow> Abort (unauthorized ''Invalid token'')
         | Some cl \<Rightarrow>
             (case claim_string cl ''user_id'' of
                None \<Rightarrow> Abort (unauthorized ''Invalid user ID in token'')
              | Some userID \<Rightarrow>
                  (case claim_string cl ''session_token'' of
                     None \<Rightarrow> Abort (unauthorized ''Invalid session token in claims'')
                   | Some sessionToken \<Rightarrow>
                       (case find_active_session L d sessionToken userID of
                          Inl err \<Rightarrow> Abort (unauthorized ''Invalid session'')
                        | Inr session \<Rightarrow>
                            if IsExpired session now
                            then Abort (unauthorized ''Session expired'')
                            else Next \<lparr>ctx_user = Some (session_User session),
                                       ctx_user_id = Some (user_ID (session_User session)),
                                       ctx_session = Some session\<rparr>)))))"

section \<open>Authorization Gate (middleware.go, RequireRole and RequirePermission)\<close>

fun hasRole :: "role list \<Rightarrow> string \<Rightarrow> bool" where
  "hasRole [] requiredRole = False"
| "hasRole (r # rs) requiredRole =
     (if role_Name r = requiredRole then True else hasRole rs requiredRole)"

definition quoted :: "string \<Rightarrow> string" where
  "quoted s = CHR 0x27 # s @ [CHR 0x27]"

definition RequireRole :: "string \<Rightarrow> gin_context \<Rightarrow> gin_context mw" where
  "RequireRole requiredRole c =
     (case ctx_user c of
        None \<Rightarrow> Abort (unauthorized ''User not found in context'')
      | Some u \<Rightarrow>
          if \<not> hasRole (user_Roles u) requiredRole
          then Abort (Response StatusForbidden
                        (ErrorBody (''Role '' @ quoted requiredRole @ '' is required'')))
          else Next c)"

fun permission_in :: "string list \<Rightarrow> string \<Rightarrow> bool" where
  "permission_in [] requiredPermission = False"
| "permission_in (p # ps) requiredPermission =
     (if p = requiredPermission then True else permission_in ps requiredPermission)"

fun hasPermission :: "role list \<Rightarrow> string \<Rightarrow> bool" where
  "hasPermission [] requiredPermission = False"
| "hasPermission (r # rs) requiredPermission =
     (if permission_in (elems (GetPermissions r)) requiredPermission then True
      else hasPermission rs requiredPermission)"

definition RequirePermission :: "string \<Rightarrow> gin_context \<Rightarrow> gin_context mw" where
  "RequirePermission requiredPermission c =
     (case ctx_user c of
        None \<Rightarrow> Abort (unauthorized ''User not found in context'')
      | Some u \<Rightarrow>
          if \<not> hasPermission (user_Roles u) requiredPermission
          then Abort (Response StatusForbidden
                        (ErrorBody (''Permission '' @ quoted requiredPermission @ '' is required'')))
          else Next c)"

section \<open>Session Issuer (auth.go, Login)\<close>

definition internal_error :: "string \<Rightarrow> response" where
  "internal_error msg = Response StatusInternalServerError (ErrorBody msg)"

text \<open>The session value \<open>Login\<close> builds before it creates the row.\<close>

definition new_session :: "JWTConfig \<Rightarrow> request_env \<Rightarrow> user \<Rightarrow> session" where
  "new_session cfg env user =
     \<lparr>session_ID = uuid_Nil,
      session_UserID = user_ID user,
      session_Token = uuid_String (env_token_uuid env),
      session_ExpiresAt = env_now env + JWT_RefreshExp cfg,
      session_IPAddress = env_ClientIP env,
      session_UserAgent = env_UserAgent env,
      session_IsActive = True,
      session_User = zero_user\<rparr>"

definition Login ::
  "lib \<Rightarrow> JWTConfig \<Rightarrow> request_env \<Rightarrow> db \<Rightarrow> LoginRequest bind \<Rightarrow> db \<times> response" where
  "Login L cfg env d b =
     (case b of
        BindError err \<Rightarrow> (d, Response StatusBadRequest (ErrorBody err))
      | Bound req \<Rightarrow>
          (case find_user_by_login d (req_Username req) of
             Inl err \<Rightarrow> (d, unauthorized ''Invalid credentials'')
           | Inr user \<Rightarrow>
               if \<not> user_IsActive user then (d, unauthorized ''Account is disabled'')
               else if \<not> bcrypt_ok L (user_Password user) (req_Password req)
                 then (d, unauthorized ''Invalid credentials'')
               else
                 (case Create_session env d (new_session cfg env user) of
                    Inl err \<Rightarrow> (d, internal_error ''Failed to create session'')
                  | Inr (d1, session) \<Rightarrow>
                      (case generateAccessToken L cfg (env_now env) (user_ID user)
                              (session_Token session) of
                         None \<Rightarrow> (d1, internal_error ''Failed to generate access token'')
                       | Some accessToken \<Rightarrow>
                           (case generateRefreshToken L cfg (env_now env) (user_ID user)
                                   (session_Token session) of
                              None \<Rightarrow> (d1, internal_error ''Failed to generate refresh token'')
                            | Some refreshToken \<Rightarrow>
                                (let user1 = user\<lparr>user_LastLoginAt := Some (env_now env)\<rparr>;
                                     d2 = Save_user d1 user1
                                 in (d2, Response StatusOK
                                       (LoginBody
                                          \<lparr>resp_User = user1\<lparr>user_Password := ''''\<rparr>,
                                           resp_AccessToken = accessToken,
                                           resp_RefreshToken = refreshToken,
                                           resp_ExpiresIn = ExpiresIn cfg\<rparr>))))))))"

section \<open>Token Refresh (auth.go, RefreshToken)\<close>

definition refresh_keyFunc :: "JWTConfig \<Rightarrow> signing_method \<Rightarrow> string + string" where
  "refresh_keyFunc cfg method =
     (if method \<noteq> SigningMethodHMAC then Inl ''signature is invalid''
      else Inr (JWT_Secret cfg))"

text \<open>\<open>s, _ := claims[k].(string)\<close>: the empty string when the assertion fails.\<close>

definition claim_string_or_empty :: "claims \<Rightarrow> string \<Rightarrow> string" where
  "claim_string_or_empty cl k = (case claim_string cl k of None \<Rightarrow> '''' | Some s \<Rightarrow> s)"

definition RefreshToken ::
  "lib \<Rightarrow> JWTConfig \<Rightarrow> db \<Rightarrow> time \<Rightarrow> RefreshTokenRequest bind \<Rightarrow> response" where
  "RefreshToken L cfg d now b =
     (case b of
        BindError err \<Rightarrow> Response StatusBadRequest (ErrorBody err)
      | Bound req \<Rightarrow>
          (case jwt_Parse L now (req_RefreshToken req) (refresh_keyFunc cfg) of
             None \<Rightarrow> unauthorized ''Invalid refresh token''
           | Some cl \<Rightarrow>
               (let userID = claim_string_or_empty cl ''user_id'';
                    sessionToken = claim_string_or_empty cl ''session_token''
                in case find_active_session L d sessionToken userID of
                     Inl err \<Rightarrow> unauthorized ''Invalid session''
                   | Inr session \<Rightarrow>
                       if IsExpired session now then unauthorized ''Session expired''
                       else
                         (case generateAccessToken L cfg now (user_ID (session_User session))
                                 (session_Token session) of
                            None \<Rightarrow> internal_error ''Failed to generate access token''
                          | Some accessToken \<Rightarrow>
                              Response StatusOK
                                (LoginBody
                                   \<lparr>resp_User = (session_User session)\<lparr>user_Password := ''''\<rparr>,
                                    resp_AccessToken = accessToken,
                                    resp_RefreshToken = req_RefreshToken req,
                                    resp_ExpiresIn = ExpiresIn cfg\<rparr>)))))"

section \<open>Logout (auth.go, Logout)\<close>

definition Logout :: "request_env \<Rightarrow> db \<Rightarrow> gin_context \<Rightarrow> db \<times> response" where
  "Logout env d c =
     (case ctx_session c of
        None \<Rightarrow> (d, unauthorized ''Session not found'')
      | Some s \<Rightarrow>
          (case Save_session env d (s\<lparr>session_IsActive := False\<rparr>) of
             Inl err \<Rightarrow> (d, internal_error ''Failed to logout'')
           | Inr d' \<Rightarrow> (d', Response StatusOK (MessageBody ''Logged out successfully''))))"

text \<open>
  The route \<open>POST /api/auth/logout\<close> lies in the protected group (config.go): the
  authenticator runs first, and \<open>Logout\<close> sees the context it has filled.
\<close>

definition logout_route ::
  "lib \<Rightarrow> JWTConfig \<Rightarrow> request_env \<Rightarrow> db \<Rightarrow> string \<Rightarrow> db \<times> response" where
  "logout_route L cfg env d authHeader =
     (case AuthMiddleware L cfg d (env_now env) authHeader of
        Abort r \<Rightarrow> (d, r)
      | Next c \<Rightarrow> Logout env d c)"

section \<open>User list (user handler, GetUsers)\<close>

text \<open>
  \<open>strconv.Atoi\<close> with its error dropped: zero for text that is no decimal integer,
  the nearest 64-bit value for one out of range.
\<close>

fun digits_val :: "string \<Rightarrow> int \<Rightarrow> int option" where
  "digits_val [] acc = Some acc"
| "digits_val (c # cs) acc =
     (if isDigit c then digits_val cs (acc * 10 + int (byte c - 0x30)) else None)"

definition Atoi :: "string \<Rightarrow> int" where
  "Atoi s =
     (let neg = (take 1 s = ''-'');
          ds = (if take 1 s = ''-'' \<or> take 1 s = ''+'' then drop 1 s else s)
      in if ds = [] then 0
         else (case digits_val ds 0 of
                 None \<Rightarrow> 0
               | Some n \<Rightarrow>
                   (let v = (if neg then - n else n)
                    in if v > 2 ^ 63 - 1 then 2 ^ 63 - 1
                       else if v < - (2 ^ 63) then - (2 ^ 63)
                       else v)))"

type_synonym query = "string \<rightharpoonup> string"

definition DefaultQuery :: "query \<Rightarrow> string \<Rightarrow> string \<Rightarrow> string" where
  "DefaultQuery q key defaultValue = (case q key of None \<Rightarrow> defaultValue | Some v \<Rightarrow> v)"

definition Query :: "query \<Rightarrow> string \<Rightarrow> string" where
  "Query q key = (case q key of None \<Rightarrow> '''' | Some v \<Rightarrow> v)"

definition search_users :: "lib \<Rightarrow> db \<Rightarrow> string \<Rightarrow> user list" where
  "search_users L d search =
     (if search \<noteq> '''' then
        filter (\<lambda>u. ilike L (''%'' @ search @ ''%'') (user_Username u)
                   \<or> ilike L (''%'' @ search @ ''%'') (user_Email u)
                   \<or> ilike L (''%'' @ search @ ''%'') (user_FirstName u)
                   \<or> ilike L (''%'' @ search @ ''%'') (user_LastName u))
          (visible_users d)
      else visible_users d)"

text \<open>
  \<open>query.Count(&total)\<close> leaves \<open>total\<close> zero when it fails; \<open>Offset\<close> is applied
  only when positive; the rows come in storage order.
\<close>

definition GetUsers :: "lib \<Rightarrow> db \<Rightarrow> query \<Rightarrow> response" where
  "GetUsers L d q =
     (let page0 = Atoi (DefaultQuery q ''page'' ''1'');
          limit0 = Atoi (DefaultQuery q ''limit'' ''10'');
          search = Query q ''search'';
          page = (if page0 < 1 then 1 else page0);
          limit = (if limit0 < 1 \<or> limit0 > 100 then 10 else limit0);
          offset = wrap64 ((page - 1) * limit);
          matching = search_users L d search;
          total = (if db_up d then int (length matching) else 0)
      in if \<not> db_up d then internal_error ''Failed to fetch users''
         else
           (let found = take (nat limit) (drop (if offset > 0 then nat offset else 0) matching)
            in Response StatusOK
                 (UsersBody (map (\<lambda>u. u\<lparr>user_Password := ''''\<rparr>) found)
                    \<lparr>current_page = page,
                     total_pages = go_div (wrap64 (wrap64 (total + limit) - 1)) limit,
                     total_items = total,
                     items_per_page = limit\<rparr>)))"

section \<open>The store over time\<close>

text \<open>
  The sessions table is written by \<open>Login\<close> (one new row) and by \<open>Logout\<close> behind the
  authenticator (the caller's row); every other handler leaves it as it is. A store is
  reachable when these steps lead to it from a store without sessions.
\<close>

inductive store_step :: "lib \<Rightarrow> db \<Rightarrow> db \<Rightarrow> bool" for L :: lib where
  login: "Login L cfg env d b = (d', r) \<Longrightarrow> store_step L d d'"
| logout: "logout_route L cfg env d authHeader = (d', r) \<Longrightarrow> store_step L d d'"
| other: "sessions d' = sessions d \<Longrightarrow> store_step L d d'"

definition reachable :: "lib \<Rightarrow> db \<Rightarrow> bool" where
  "reachable L d \<longleftrightarrow> (\<exists>d0. sessions d0 = [] \<and> (store_step L)\<^sup>*\<^sup>* d0 d)"

text \<open>
  What the schema enforces on the sessions table: the primary key and the unique index
  on the token.
\<close>

definition schema_ok :: "db \<Rightarrow> bool" where
  "schema_ok d \<longleftrightarrow>
     distinct (map session_ID (sessions d)) \<and> distinct (map session_Token (sessions d))"

text \<open>A session token is revoked in a store that holds an inactive row with it.\<close>

definition revoked :: "string \<Rightarrow> db \<Rightarrow> bool" where
  "revoked t d \<longleftrightarrow> (\<exists>r \<in> set (sessions d). session_Token r = t \<and> \<not> session_IsActive r)"

text \<open>No stored session has the empty token.\<close>

definition tokens_nonempty :: "db \<Rightarrow> bool" where
  "tokens_nonempty d \<longleftrightarrow> (\<forall>s \<in> set (sessions d). session_Token s \<noteq> '''')"

section \<open>A concrete installation\<close>

text \<open>
  A small store, configuration and library instance on which the statements below are
  evaluated: two users, one of them disabled, and a token library whose tokens are
  readable strings.
\<close>

definition admin_role :: role where
  "admin_role =
     SetPermissions (Slice [''user:read'', ''user:update''])
       \<lparr>role_ID = 1, role_Name = ''admin'', role_Description = ''System Administrator'',
        role_Permissions = '''', role_IsActive = True\<rparr>"

definition alice :: user where
  "alice = zero_user\<lparr>user_ID := 1, user_Username := ''alice'',
     user_Email := ''alice@example.com'', user_Password := ''bcrypt:wonderland'',
     user_IsActive := True, user_Roles := [admin_role]\<rparr>"

definition bob :: user where
  "bob = zero_user\<lparr>user_ID := 2, user_Username := ''bob'',
     user_Email := ''bob@example.com'', user_Password := ''bcrypt:builder'',
     user_IsActive := False\<rparr>"

definition demo_claims :: "string \<Rightarrow> claims" where
  "demo_claims ty =
     [''user_id'' \<mapsto> JString (uuid_String 1),
      ''session_token'' \<mapsto> JString (uuid_String 7),
      ''type'' \<mapsto> JString ty]"

definition access_tok :: string where
  "access_tok = ''access:'' @ uuid_String 7"

definition refresh_tok :: string where
  "refresh_tok = ''refresh:'' @ uuid_String 7"

definition L0 :: lib where
  "L0 = \<lparr>bcrypt_ok = (\<lambda>hash password. hash = ''bcrypt:'' @ password),
          jwt_decode = (\<lambda>t.
            if t = access_tok
              then Some (SigningMethodHMAC, demo_claims ''access'')
            else if t = refresh_tok
              then Some (SigningMethodHMAC, demo_claims ''refresh'')
            else if t = ''no-session-claim''
              then Some (SigningMethodHMAC, [''user_id'' \<mapsto> JString (uuid_String 1)])
            else None),
          jwt_verify = (\<lambda>t key. key = ''s3cret''),
          jwt_claims_valid = (\<lambda>cl now. True),
          jwt_SignedString = (\<lambda>cl key.
            case (cl ''type'', cl ''session_token'') of
              (Some (JString ty), Some (JString s)) \<Rightarrow> Some (ty @ '':'' @ s)
            | _ \<Rightarrow> None),
          pg_uuid_in = (\<lambda>s.
            if s = uuid_String 1 then Some 1
            else if s = uuid_String 2 then Some 2
            else None),
          ilike = (\<lambda>pattern text. False)\<rparr>"

definition cfg0 :: JWTConfig where
  "cfg0 = \<lparr>JWT_Secret = ''s3cret'', JWT_Expiry = 24 * 3600 * Second,
            JWT_RefreshExp = 7 * 24 * 3600 * Second\<rparr>"

definition env0 :: request_env where
  "env0 = \<lparr>env_now = 1000, env_token_uuid = 7, env_id_uuid = 9,
            env_ClientIP = ''10.0.0.1'', env_UserAgent = ''curl''\<rparr>"

definition d_init :: db where
  "d_init = \<lparr>db_up = True, users = [alice, bob], sessions = []\<rparr>"

definition login_request :: "string \<Rightarrow> string \<Rightarrow> LoginRequest bind" where
  "login_request name password = Bound \<lparr>req_Username = name, req_Password = password\<rparr>"

text \<open>The store after \<open>alice\<close> has logged in on \<open>d_init\<close> with \<open>env0\<close>.\<close>

definition alice_session :: session where
  "alice_session =
     \<lparr>session_ID = 9, session_UserID = 1, session_Token = uuid_String 7,
      session_ExpiresAt = 1000 + JWT_RefreshExp cfg0, session_IPAddress = ''10.0.0.1'',
      session_UserAgent = ''curl'', session_IsActive = True, session_User = zero_user\<rparr>"

definition d_login :: db where
  "d_login = \<lparr>db_up = True, users = [alice\<lparr>user_LastLoginAt := Some 1000\<rparr>, bob],
               sessions = [alice_session]\<rparr>"

text \<open>A later request, and the store after \<open>alice\<close> has logged out with her access token.\<close>

definition env1 :: request_env where
  "env1 = \<lparr>env_now = 2000, env_token_uuid = 8, env_id_uuid = 10,
            env_ClientIP = ''10.0.0.1'', env_UserAgent = ''curl''\<rparr>"


definition d_logout :: db where
  "d_logout = d_login\<lparr>sessions := [alice_session\<lparr>session_IsActive := False\<rparr>]\<rparr>"

text \<open>A store with 25 users, and a store that no sequence of requests produces.\<close>

definition numbered_user :: "nat \<Rightarrow> user" where
  "numbered_user i = zero_user\<lparr>user_ID := of_nat i, user_Username := replicate i (CHR ''u''),
     user_Password := ''bcrypt:pw'', user_IsActive := True\<rparr>"

definition d25 :: db where
  "d25 = \<lparr>db_up = True, users = map numbered_user [1..<26], sessions = []\<rparr>"

definition d_odd :: db where
  "d_odd = d_login\<lparr>sessions := [alice_session\<lparr>session_Token := ''''\<rparr>]\<rparr>"

lemma time_Sub_le_Minute: "time_Sub now t \<le> Minute \<longleftrightarrow> now - t \<le> Minute"
  by (simp add: time_Sub_def Let_def maxDuration_def minDuration_def Minute_def)

lemma requests_of_clean_old:
  "requests_of (clean_old now clients ip) ip = recent now clients ip"
  by (simp add: clean_old_def requests_of_def recent_def time_Sub_le_Minute
      split: option.splits)

lemma clean_old_other: "ip' \<noteq> ip \<Longrightarrow> clean_old now clients ip ip' = clients ip'"
  by (simp add: clean_old_def split: option.splits)

lemma clean_old_same:
  "clean_old now clients ip ip = map_option (filter (\<lambda>t. now - t \<le> Minute)) (clients ip)"
  by (simp add: clean_old_def time_Sub_le_Minute split: option.splits)

text \<open>
  C10. A request is rejected with 429 exactly when the caller already has 100 or more
  recorded requests that are at most one minute old; otherwise the current instant is
  appended to the pruned list and the request proceeds. After the invocation every
  instant stored for the caller is at most one minute old, and no other client's list
  has changed.
\<close>

theorem RateLimit_sliding_window:
  assumes "RateLimit clients ip now = (clients', out)"
  shows "(out = Abort (Response 429 (ErrorBody ''Rate limit exceeded''))
            \<longleftrightarrow> 100 \<le> length (recent now clients ip))
       \<and> (out \<noteq> Abort (Response 429 (ErrorBody ''Rate limit exceeded''))
            \<longrightarrow> out = Next () \<and> clients' ip = Some (recent now clients ip @ [now]))
       \<and> (\<forall>ts. clients' ip = Some ts \<longrightarrow> (\<forall>t \<in> set ts. now - t \<le> Minute))
       \<and> (\<forall>ip'. ip' \<noteq> ip \<longrightarrow> clients' ip' = clients ip')"
proof (cases "100 \<le> length (recent now clients ip)")
  case True
  with assms have out: "out = Abort (Response 429 (ErrorBody ''Rate limit exceeded''))"
    and cl: "clients' = clean_old now clients ip"
    by (auto simp: RateLimit_def Let_def requests_of_clean_old StatusTooManyRequests_def)
  have "\<forall>ts. clients' ip = Some ts \<longrightarrow> (\<forall>t \<in> set ts. now - t \<le> Minute)"
    by (auto simp: cl clean_old_same)
  with True out cl show ?thesis
    by (simp add: clean_old_other)
next
  case False
  with assms have out: "out = Next ()"
    and cl: "clients' = (clean_old now clients ip)(ip \<mapsto> recent now clients ip @ [now])"
    by (auto simp: RateLimit_def Let_def requests_of_clean_old)
  have "\<forall>ts. clients' ip = Some ts \<longrightarrow> (\<forall>t \<in> set ts. now - t \<le> Minute)"
    by (auto simp: cl recent_def Minute_def)
  with False out cl show ?thesis
    by (simp add: clean_old_other)
qed

theorem RateLimit_sliding_window_witness:
  "snd (RateLimit [''10.0.0.1'' \<mapsto> replicate 100 0] ''10.0.0.1'' 5)
     = Abort (Response 429 (ErrorBody ''Rate limit exceeded''))
   \<and> 100 \<le> length (recent 5 [''10.0.0.1'' \<mapsto> replicate 100 0] ''10.0.0.1'')"
proof -
  obtain c out where h: "RateLimit [''10.0.0.1'' \<mapsto> replicate 100 0] ''10.0.0.1'' 5 = (c, out)"
    by (cases "RateLimit [''10.0.0.1'' \<mapsto> replicate 100 0] ''10.0.0.1'' 5")
  have r: "100 \<le> length (recent 5 [''10.0.0.1'' \<mapsto> replicate 100 0] ''10.0.0.1'')"
    by (simp add: recent_def requests_of_def Minute_def)
  from RateLimit_sliding_window [OF h] r
  have "out = Abort (Response 429 (ErrorBody ''Rate limit exceeded''))"
    by blast
  with h r show ?thesis by simp
qed

section \<open>Lemmas about the JSON codec\<close>

declare coerce_utf8.simps(2) [simp del] valid_utf8.simps(2) [simp del]
  array_values.simps [simp del]

lemma byte_char: "byte c = n \<Longrightarrow> c = char_of n"
  by (auto simp: byte_def)

lemma char_of_literals:
  "char_of (0x08 :: nat) = CHR 0x08" "char_of (0x0C :: nat) = CHR 0x0C"
  "char_of (0x0A :: nat) = CHR 0x0A" "char_of (0x0D :: nat) = CHR 0x0D"
  "char_of (0x09 :: nat) = CHR 0x09" "char_of (0xEF :: nat) = CHR 0xEF"
  "char_of (0xBF :: nat) = CHR 0xBF" "char_of (0xBD :: nat) = CHR 0xBD"
  "char_of (0xE2 :: nat) = CHR 0xE2" "char_of (0x80 :: nat) = CHR 0x80"
  "char_of (0xA8 :: nat) = CHR 0xA8" "char_of (0xA9 :: nat) = CHR 0xA9"
  by code_simp+

lemma specials:
  "byte dquote = 0x22" "byte bslash = 0x5C" "dquote \<noteq> bslash"
  by (simp_all add: byte_def dquote_def bslash_def)

lemma emit_Some: "emit out (Some (t, rest)) = Some (out @ t, rest)"
  by (simp add: emit_def)

lemma unquote_plain:
  assumes "c \<noteq> dquote" "c \<noteq> bslash" "0x20 \<le> byte c" "byte c < 0x80"
  shows "unquote_body (c # X) = emit [c] (unquote_body X)"
  using assms by (subst unquote_body.simps(2)) simp

lemma unquote_escape:
  assumes "unescape e = Some b" "e \<noteq> CHR ''u''"
  shows "unquote_body (bslash # e # X) = emit [b] (unquote_body X)"
  using assms by (subst unquote_body.simps(2)) (simp add: specials(3) [symmetric])

lemma unquote_u:
  assumes "getu4 (bslash # CHR ''u'' # h1 # h2 # h3 # h4 # X) = Some r" "\<not> IsSurrogate r"
  shows "unquote_body (bslash # CHR ''u'' # h1 # h2 # h3 # h4 # X)
           = emit (EncodeRune r) (unquote_body X)"
  using assms
  by (subst unquote_body.simps(2)) (simp add: specials(3) [symmetric] del: getu4.simps)

lemma unquote_rune:
  assumes "0x80 \<le> byte c" "rune_len (c # s) = n" "0 < n"
  shows "unquote_body (c # s) = emit (take n (c # s)) (unquote_body (drop (n - 1) s))"
proof -
  from assms(1) have "c \<noteq> dquote" "c \<noteq> bslash"
    using specials by auto
  with assms show ?thesis
    by (subst unquote_body.simps(2)) (simp add: Let_def del: rune_len.simps)
qed

lemma unquote_invalid:
  assumes "0x80 \<le> byte c" "rune_len (c # s) = 0"
  shows "unquote_body (c # s) = emit RuneError_utf8 (unquote_body s)"
proof -
  from assms(1) have "c \<noteq> dquote" "c \<noteq> bslash"
    using specials by auto
  with assms show ?thesis
    by (subst unquote_body.simps(2)) (simp add: Let_def del: rune_len.simps)
qed

lemma hex_digits:
  assumes "k < 16"
  shows "hexval (hex k) = Some k" and "isHex (hex k)"
proof -
  from assms have "k \<in> {0, 1, 2, 3, 4, 5, 6, 7, 8, 9, 10, 11, 12, 13, 14, 15}"
    by simp arith
  then show "hexval (hex k) = Some k" and "isHex (hex k)"
    by (auto simp: hex_def hexval_def isHex_def between_def byte_def)
qed

lemma getu4_00:
  assumes "b < 256"
  shows "getu4 (bslash # CHR ''u'' # CHR ''0'' # CHR ''0'' # hex (b div 16) # hex (b mod 16) # X)
           = Some b"
proof -
  from assms have "b div 16 < 16" by simp
  from hex_digits(1) [OF this] hex_digits(1) [of "b mod 16"]
  have "hexval (hex (b div 16)) = Some (b div 16)" "hexval (hex (b mod 16)) = Some (b mod 16)"
    by simp_all
  moreover have "hexval (CHR ''0'') = Some 0"
    by (simp add: hexval_def between_def byte_def)
  ultimately show ?thesis by simp
qed

lemma unquote_escape_ascii:
  assumes "byte c < 0x80" "\<not> htmlSafe c"
  shows "unquote_body (escape_ascii c @ X) = emit [c] (unquote_body X)"
proof -
  consider (q) "c = bslash \<or> c = dquote"
    | (b) "byte c = 0x08" | (f) "byte c = 0x0C" | (n) "byte c = 0x0A"
    | (r) "byte c = 0x0D" | (t) "byte c = 0x09"
    | (u) "c \<noteq> bslash" "c \<noteq> dquote" "byte c \<noteq> 0x08" "byte c \<noteq> 0x0C" "byte c \<noteq> 0x0A"
          "byte c \<noteq> 0x0D" "byte c \<noteq> 0x09"
    by blast
  then show ?thesis
  proof cases
    case q
    then have "unescape c = Some c" "c \<noteq> CHR ''u''" "escape_ascii c = [bslash, c]"
      by (auto simp: unescape_def escape_ascii_def dquote_def bslash_def)
    then show ?thesis by (simp add: unquote_escape)
  next
    case b
    then have "c = CHR 0x08" by (auto dest: byte_char simp: char_of_literals)
    then have "escape_ascii c = [bslash, CHR ''b'']" "unescape (CHR ''b'') = Some c"
      by (simp_all add: escape_ascii_def unescape_def dquote_def bslash_def byte_def)
    then show ?thesis by (simp add: unquote_escape)
  next
    case f
    then have "c = CHR 0x0C" by (auto dest: byte_char simp: char_of_literals)
    then have "escape_ascii c = [bslash, CHR ''f'']" "unescape (CHR ''f'') = Some c"
      by (simp_all add: escape_ascii_def unescape_def dquote_def bslash_def byte_def)
    then show ?thesis by (simp add: unquote_escape)
  next
    case n
    then have "c = CHR 0x0A" by (auto dest: byte_char simp: char_of_literals)
    then have "escape_ascii c = [bslash, CHR ''n'']" "unescape (CHR ''n'') = Some c"
      by (simp_all add: escape_ascii_def unescape_def dquote_def bslash_def byte_def)
    then show ?thesis by (simp add: unquote_escape)
  next
    case r
    then have "c = CHR 0x0D" by (auto dest: byte_char simp: char_of_literals)
    then have "escape_ascii c = [bslash, CHR ''r'']" "unescape (CHR ''r'') = Some c"
      by (simp_all add: escape_ascii_def unescape_def dquote_def bslash_def byte_def)
    then show ?thesis by (simp add: unquote_escape)
  next
    case t
    then have "c = CHR 0x09" by (auto dest: byte_char simp: char_of_literals)
    then have "escape_ascii c = [bslash, CHR ''t'']" "unescape (CHR ''t'') = Some c"
      by (simp_all add: escape_ascii_def unescape_def dquote_def bslash_def byte_def)
    then show ?thesis by (simp add: unquote_escape)
  next
    case u
    then have e: "escape_ascii c = [bslash, CHR ''u'', CHR ''0'', CHR ''0'',
                                    hex (byte c div 16), hex (byte c mod 16)]"
      by (simp add: escape_ascii_def)
    from assms(1) have g: "getu4 (bslash # CHR ''u'' # CHR ''0'' # CHR ''0''
                              # hex (byte c div 16) # hex (byte c mod 16) # X) = Some (byte c)"
      by (intro getu4_00) simp
    from assms(1) have s: "\<not> IsSurrogate (byte c)" "EncodeRune (byte c) = [c]"
      by (simp_all add: IsSurrogate_def EncodeRune_def byte_def)
    show ?thesis
      unfolding e using unquote_u [OF g s(1)] by (simp add: s(2))
  qed
qed

lemma getu4_literal:
  "getu4 (bslash # ''ufffd'' @ X) = Some 0xFFFD"
  "getu4 (bslash # ''u2028'' @ X) = Some 0x2028"
  "getu4 (bslash # ''u2029'' @ X) = Some 0x2029"
  by (simp_all add: hexval_def between_def byte_def)

lemma EncodeRune_literal:
  "EncodeRune 0xFFFD = RuneError_utf8"
  "EncodeRune 0x2028 = [CHR 0xE2, CHR 0x80, CHR 0xA8]"
  "EncodeRune 0x2029 = [CHR 0xE2, CHR 0x80, CHR 0xA9]"
  by (simp_all add: EncodeRune_def RuneError_utf8_def char_of_literals)

lemma unquote_literal:
  "unquote_body (bslash # CHR ''u'' # CHR ''f'' # CHR ''f'' # CHR ''f'' # CHR ''d'' # X)
     = emit RuneError_utf8 (unquote_body X)"
  "unquote_body (bslash # CHR ''u'' # CHR ''2'' # CHR ''0'' # CHR ''2'' # CHR ''8'' # X)
     = emit [CHR 0xE2, CHR 0x80, CHR 0xA8] (unquote_body X)"
  "unquote_body (bslash # CHR ''u'' # CHR ''2'' # CHR ''0'' # CHR ''2'' # CHR ''9'' # X)
     = emit [CHR 0xE2, CHR 0x80, CHR 0xA9] (unquote_body X)"
  using unquote_u [of "CHR ''f''" "CHR ''f''" "CHR ''f''" "CHR ''d''" X "0xFFFD"]
        unquote_u [of "CHR ''2''" "CHR ''0''" "CHR ''2''" "CHR ''8''" X "0x2028"]
        unquote_u [of "CHR ''2''" "CHR ''0''" "CHR ''2''" "CHR ''9''" X "0x2029"]
        getu4_literal [of X]
  by (simp_all add: EncodeRune_literal IsSurrogate_def del: getu4.simps)

lemma rune_len_le: "rune_len s \<le> length s"
  by (cases s) (simp_all add: Let_def split: list.splits)

lemma rune_len_prefix:
  assumes "rune_len (c # s) = n" "0 < n"
  shows "rune_len (take n (c # s) @ Y) = n"
proof (cases "byte c < 0x80")
  case True
  with assms(1) have "n = 1" by simp
  with True show ?thesis by simp
next
  case False
  with assms show ?thesis
    by (simp add: Let_def split: list.splits if_splits)
qed

lemma rune_len_high:
  assumes "0x80 \<le> byte c" "rune_len (c # s) = n" "0 < n"
  shows "\<forall>b \<in> set (take n (c # s)). 0x80 \<le> byte b"
  using assms by (simp add: Let_def between_def split: list.splits if_splits)

lemma rune_len_separator:
  assumes "take 3 (c # cs) = [CHR 0xE2, CHR 0x80, CHR 0xA8]
         \<or> take 3 (c # cs) = [CHR 0xE2, CHR 0x80, CHR 0xA9]"
  shows "rune_len (c # cs) = 3" and "0x80 \<le> byte c"
proof -
  from assms obtain x t where cs: "cs = CHR 0x80 # x # t" and c: "c = CHR 0xE2"
    and x: "x = CHR 0xA8 \<or> x = CHR 0xA9"
    by (cases cs; cases "tl cs") auto
  from x show "rune_len (c # cs) = 3"
    by (auto simp: cs c Let_def between_def byte_def)
  show "0x80 \<le> byte c" by (simp add: c byte_def)
qed

lemma unquote_appendString_body:
  "unquote_body (appendString_body s @ dquote # rest) = Some (coerce_utf8 s, rest)"
proof (induction "length s" arbitrary: s rule: less_induct)
  case less
  show ?case
  proof (cases s)
    case Nil
    then show ?thesis by (simp add: unquote_body.simps(2))
  next
    case (Cons c cs)
    have IH: "\<And>t. length t \<le> length cs \<Longrightarrow>
                 unquote_body (appendString_body t @ dquote # rest) = Some (coerce_utf8 t, rest)"
      using less Cons by simp
    show ?thesis
    proof (cases "byte c < 0x80")
      case True
      have co: "coerce_utf8 (c # cs) = c # coerce_utf8 cs"
        using True by (simp add: coerce_utf8.simps(2))
      show ?thesis
      proof (cases "htmlSafe c")
        case safe: True
        then have "c \<noteq> dquote" "c \<noteq> bslash" "0x20 \<le> byte c"
          by (simp_all add: htmlSafe_def)
        from unquote_plain [OF this True] safe True show ?thesis
          by (simp add: Cons appendString_body.simps(2) co IH emit_Some)
      next
        case False
        from unquote_escape_ascii [OF True False] False True show ?thesis
          by (simp add: Cons appendString_body.simps(2) co IH emit_Some)
      qed
    next
      case False
      then have hi: "0x80 \<le> byte c" by simp
      show ?thesis
      proof (cases "rune_len (c # cs) = 0")
        case True
        with False show ?thesis
          by (simp add: Cons appendString_body.simps(2) coerce_utf8.simps(2) unquote_literal
              IH emit_Some del: rune_len.simps)
      next
        case valid: False
        define n where "n = rune_len (c # cs)"
        with valid have n: "rune_len (c # cs) = n" "0 < n" by simp_all
        have len: "length (drop (n - 1) cs) \<le> length cs" by simp
        have co: "coerce_utf8 (c # cs) = take n (c # cs) @ coerce_utf8 (drop (n - 1) cs)"
          using False n by (simp add: coerce_utf8.simps(2) del: rune_len.simps)
        show ?thesis
        proof (cases "take 3 (c # cs) = [CHR 0xE2, CHR 0x80, CHR 0xA8]
                    \<or> take 3 (c # cs) = [CHR 0xE2, CHR 0x80, CHR 0xA9]")
          case True
          from rune_len_separator(1) [OF True] n have n3: "n = 3" by simp
          have d: "length (drop 2 cs) \<le> length cs" by simp
          from True False n n3 show ?thesis
            by (auto simp: Cons appendString_body.simps(2) co unquote_literal IH [OF d]
                emit_Some simp del: rune_len.simps)
        next
          case other: False
          let ?Y = "appendString_body (drop (n - 1) cs) @ dquote # rest"
          from rune_len_le [of "c # cs"] n have nl: "n \<le> Suc (length cs)" by simp
          from n(2) obtain k where k: "n = Suc k" by (cases n) auto
          have tk: "take n (c # cs) @ ?Y = c # (take k cs @ ?Y)"
            by (simp add: k)
          from rune_len_prefix [OF n, of ?Y] have rl: "rune_len (c # (take k cs @ ?Y)) = n"
            by (simp add: k)
          from nl k have kl: "k \<le> length cs" by simp
          have "unquote_body (c # (take k cs @ ?Y))
                  = emit (take n (c # (take k cs @ ?Y))) (unquote_body (drop (n - 1) (take k cs @ ?Y)))"
            by (rule unquote_rune [OF hi rl n(2)])
          also have "take n (c # (take k cs @ ?Y)) = take n (c # cs)"
            using kl by (simp add: k)
          also have "drop (n - 1) (take k cs @ ?Y) = ?Y"
            using kl by (simp add: k)
          also have "unquote_body ?Y = Some (coerce_utf8 (drop (n - 1) cs), rest)"
            by (rule IH [OF len])
          finally have "unquote_body (c # (take k cs @ ?Y))
                          = Some (take n (c # cs) @ coerce_utf8 (drop (n - 1) cs), rest)"
            by (simp add: emit_Some)
          then have "unquote_body (take n (c # cs) @ ?Y)
                          = Some (take n (c # cs) @ coerce_utf8 (drop (n - 1) cs), rest)"
            by (simp only: tk)
          moreover have "appendString_body (c # cs)
                           = take n (c # cs) @ appendString_body (drop (n - 1) cs)"
          proof -
            from other have nA: "(take 3 (c # cs) = [CHR 0xE2, CHR 0x80, CHR 0xA8]) = False"
              and nB: "(take 3 (c # cs) = [CHR 0xE2, CHR 0x80, CHR 0xA9]) = False"
              by blast+
            from n(2) have nz: "(n = 0) = False" by simp
            from False have lo: "(byte c < 0x80) = False" by simp
            show ?thesis
              by (simp only: appendString_body.simps(2) lo n(1) Let_def nz nA nB if_False)
          qed
          ultimately show ?thesis
            by (simp add: Cons co)
        qed
      qed
    qed
  qed
qed

lemma valid_utf8_coerce: "valid_utf8 s \<Longrightarrow> coerce_utf8 s = s"
proof (induction "length s" arbitrary: s rule: less_induct)
  case less
  show ?case
  proof (cases s)
    case Nil
    then show ?thesis by simp
  next
    case (Cons c cs)
    define n where "n = rune_len (c # cs)"
    from less.prems have n: "n \<noteq> 0" and v: "valid_utf8 (drop (n - 1) cs)"
      by (simp_all add: Cons n_def valid_utf8.simps(2))
    have "length (drop (n - 1) cs) < length s" by (simp add: Cons)
    from less.hyps [OF this v] have IH: "coerce_utf8 (drop (n - 1) cs) = drop (n - 1) cs" .
    show ?thesis
    proof (cases "byte c < 0x80")
      case True
      then have "n = 1" by (simp add: n_def)
      with IH True show ?thesis
        by (simp add: Cons coerce_utf8.simps(2))
    next
      case False
      from n obtain k where k: "n = Suc k" by (cases n) auto
      have "coerce_utf8 (c # cs) = take n (c # cs) @ coerce_utf8 (drop (n - 1) cs)"
        using False n by (simp add: coerce_utf8.simps(2) n_def Let_def del: rune_len.simps)
      also have "\<dots> = c # cs" using IH by (simp add: k)
      finally show ?thesis by (simp add: Cons)
    qed
  qed
qed

lemma scan_append:
  "scan s (a @ b) = (case scan s a of None \<Rightarrow> None | Some s' \<Rightarrow> scan s' b)"
proof (induction a arbitrary: s)
  case Nil
  then show ?case by simp
next
  case (Cons c a)
  then show ?case by (cases s) (simp split: option.splits)
qed

lemma step_inString_high:
  "0x80 \<le> byte c \<Longrightarrow> step stateInString stk c = Some (stateInString, stk)"
  using specials by auto

lemma scan_high:
  "\<forall>b \<in> set bs. 0x80 \<le> byte b \<Longrightarrow> scan (stateInString, stk) bs = Some (stateInString, stk)"
  by (induction bs) (simp_all add: step_inString_high del: step.simps)

lemma step_inString_safe:
  "htmlSafe c \<Longrightarrow> step stateInString stk c = Some (stateInString, stk)"
  by (simp add: htmlSafe_def)

lemma isHex_0: "isHex (CHR ''0'')"
  by (simp add: isHex_def between_def byte_def)

lemma scan_escape_ascii:
  assumes "byte c < 0x80" "\<not> htmlSafe c"
  shows "scan (stateInString, stk) (escape_ascii c) = Some (stateInString, stk)"
proof -
  from assms(1) have "byte c div 16 < 16" by simp
  from hex_digits(2) [OF this] hex_digits(2) [of "byte c mod 16"]
  have h: "isHex (hex (byte c div 16))" "isHex (hex (byte c mod 16))" by simp_all
  have d: "bslash \<noteq> dquote" "CHR ''u'' \<noteq> bslash" "CHR ''u'' \<noteq> dquote"
    by (simp_all add: bslash_def dquote_def)
  show ?thesis
    by (simp add: escape_ascii_def h d isHex_0)
qed

lemma scan_literal:
  "scan (stateInString, stk) (bslash # ''ufffd'') = Some (stateInString, stk)"
  "scan (stateInString, stk) (bslash # ''u2028'') = Some (stateInString, stk)"
  "scan (stateInString, stk) (bslash # ''u2029'') = Some (stateInString, stk)"
  by (simp_all add: isHex_def between_def byte_def bslash_def dquote_def)

lemma scan_body: "scan (stateInString, stk) (appendString_body s) = Some (stateInString, stk)"
proof (induction "length s" arbitrary: s rule: less_induct)
  case less
  show ?case
  proof (cases s)
    case Nil
    then show ?thesis by simp
  next
    case (Cons c cs)
    have IH: "\<And>t. length t \<le> length cs \<Longrightarrow>
                 scan (stateInString, stk) (appendString_body t) = Some (stateInString, stk)"
      using less Cons by simp
    show ?thesis
    proof (cases "byte c < 0x80")
      case True
      show ?thesis
      proof (cases "htmlSafe c")
        case safe: True
        with True step_inString_safe [OF safe, of stk] show ?thesis
          by (simp add: Cons appendString_body.simps(2) IH del: step.simps)
      next
        case False
        with True scan_escape_ascii [OF True False, of stk] show ?thesis
          by (simp add: Cons appendString_body.simps(2) scan_append IH del: step.simps)
      qed
    next
      case False
      then have hi: "0x80 \<le> byte c" by simp
      from False have lo: "(byte c < 0x80) = False" by simp
      define n where "n = rune_len (c # cs)"
      then have n: "rune_len (c # cs) = n" by simp
      have d: "length (drop (n - 1) cs) \<le> length cs" "length (drop 2 cs) \<le> length cs"
        by simp_all
      have "appendString_body (c # cs) = bslash # ''ufffd'' @ appendString_body cs
          \<or> appendString_body (c # cs) = bslash # ''u2028'' @ appendString_body (drop 2 cs)
          \<or> appendString_body (c # cs) = bslash # ''u2029'' @ appendString_body (drop 2 cs)
          \<or> (0 < n \<and> appendString_body (c # cs)
                = take n (c # cs) @ appendString_body (drop (n - 1) cs))"
        by (simp only: appendString_body.simps(2) lo n Let_def if_False) auto
      then show ?thesis
      proof (elim disjE conjE)
        assume "appendString_body (c # cs) = bslash # ''ufffd'' @ appendString_body cs"
        with scan_literal(1) [of stk] show ?thesis
          by (simp only: Cons append_Cons [symmetric] scan_append) (simp add: IH)
      next
        assume "appendString_body (c # cs) = bslash # ''u2028'' @ appendString_body (drop 2 cs)"
        with scan_literal(2) [of stk] show ?thesis
          by (simp only: Cons append_Cons [symmetric] scan_append) (simp add: IH [OF d(2)])
      next
        assume "appendString_body (c # cs) = bslash # ''u2029'' @ appendString_body (drop 2 cs)"
        with scan_literal(3) [of stk] show ?thesis
          by (simp only: Cons append_Cons [symmetric] scan_append) (simp add: IH [OF d(2)])
      next
        assume "0 < n" and
          a: "appendString_body (c # cs) = take n (c # cs) @ appendString_body (drop (n - 1) cs)"
        from scan_high [OF rune_len_high [OF hi n this(1)], of stk] IH [OF d(1)] show ?thesis
          by (simp only: Cons a scan_append) simp
      qed
    qed
  qed
qed

lemma not_space_dquote: "\<not> isSpace dquote" "\<not> isSpace (CHR '','')" "\<not> isSpace (CHR '']'')"
  "\<not> isSpace (CHR ''['')"
  by (simp_all add: isSpace_def dquote_def byte_def)

lemma step_begin_dquote:
  "step stateBeginValue stk dquote = Some (stateInString, stk)"
  "step stateBeginValueOrEmpty stk dquote = Some (stateInString, stk)"
  by (simp_all add: beginValue_def not_space_dquote) (simp_all add: dquote_def)

lemma scan_appendString:
  assumes "st = stateBeginValue \<or> st = stateBeginValueOrEmpty"
  shows "scan (st, stk) (appendString s @ X) = scan (stateEndValue, stk) X"
proof -
  have "scan (stateInString, stk) (appendString_body s @ dquote # X) = scan (stateEndValue, stk) X"
    by (simp add: scan_append scan_body)
  with assms step_begin_dquote [of stk] show ?thesis
    by (auto simp: appendString_def simp del: step.simps)
qed

lemma scan_join_comma:
  assumes "xs \<noteq> []" and "st = stateBeginValue \<or> st = stateBeginValueOrEmpty"
  shows "scan (st, [parseArrayValue]) (join_comma (map appendString xs) @ X)
           = scan (stateEndValue, [parseArrayValue]) X"
  using assms
proof (induction xs arbitrary: st)
  case Nil
  then show ?case by simp
next
  case (Cons x xs)
  show ?case
  proof (cases xs)
    case Nil
    with Cons.prems(2) show ?thesis by (simp add: scan_appendString)
  next
    case (Cons y ys)
    have c: "step stateEndValue [parseArrayValue] (CHR '','') = Some (stateBeginValue, [parseArrayValue])"
      by (simp add: endValue_def not_space_dquote)
    have "scan (st, [parseArrayValue])
            (appendString x @ CHR '','' # join_comma (map appendString (y # ys)) @ X)
          = scan (stateBeginValue, [parseArrayValue]) (join_comma (map appendString (y # ys)) @ X)"
      using Cons.prems(2) c by (simp add: scan_appendString del: step.simps)
    also have "\<dots> = scan (stateEndValue, [parseArrayValue]) X"
      using Cons.IH [of stateBeginValue] Cons by simp
    finally show ?thesis by (simp add: Cons)
  qed
qed

lemma checkValid_Marshal: "checkValid (json_Marshal (Slice xs))"
proof -
  have o: "step stateBeginValue [] (CHR ''['') = Some (stateBeginValueOrEmpty, [parseArrayValue])"
    by (simp add: beginValue_def not_space_dquote pushParseState_def maxNestingDepth_def dquote_def)
  have c: "\<And>st. st = stateEndValue \<or> st = stateBeginValueOrEmpty \<Longrightarrow>
             step st [parseArrayValue] (CHR '']'') = Some (stateEndTop, [])"
    by (auto simp: endValue_def not_space_dquote popParseState_def)
  have "scan (stateBeginValueOrEmpty, [parseArrayValue]) (join_comma (map appendString xs) @ '']'')
          = Some (stateEndTop, [])"
  proof (cases xs)
    case Nil
    with c [of stateBeginValueOrEmpty] show ?thesis by (simp del: step.simps)
  next
    case (Cons y ys)
    then have "xs \<noteq> []" by simp
    from scan_join_comma [OF this, of stateBeginValueOrEmpty "'']''"] c [of stateEndValue]
    show ?thesis by (simp del: step.simps)
  qed
  with o show ?thesis
    by (simp add: checkValid_def json_Marshal_def eof_def del: step.simps)
qed

lemma decode_elem_appendString: "decode_elem (appendString s @ X) = (coerce_utf8 s, X)"
  by (simp add: decode_elem_def appendString_def unquote_appendString_body)

lemma skip_space_id: "\<not> isSpace c \<Longrightarrow> skip_space (c # s) = c # s"
  by simp

lemma join_comma_head:
  "xs \<noteq> [] \<Longrightarrow> \<exists>t. join_comma (map appendString xs) = dquote # t"
  by (cases xs rule: join_comma.cases) (simp_all add: appendString_def)

lemma array_values_join_comma:
  "xs \<noteq> [] \<Longrightarrow> array_values (join_comma (map appendString xs) @ '']'') = map coerce_utf8 xs"
proof (induction xs)
  case Nil
  then show ?case by simp
next
  case (Cons x xs)
  show ?case
  proof (cases xs)
    case Nil
    then show ?thesis
      by (subst array_values.simps)
         (simp add: decode_elem_appendString not_space_dquote)
  next
    case (Cons y ys)
    then have ne: "xs \<noteq> []" by simp
    from join_comma_head [OF ne] obtain t where t: "join_comma (map appendString xs) = dquote # t" ..
    have s: "skip_space (join_comma (map appendString xs) @ '']'')
               = join_comma (map appendString xs) @ '']''"
      by (simp add: t not_space_dquote)
    have "array_values (appendString x @ CHR '','' # join_comma (map appendString xs) @ '']'')
            = coerce_utf8 x # array_values (join_comma (map appendString xs) @ '']'')"
      by (subst array_values.simps)
         (simp add: decode_elem_appendString not_space_dquote s)
    with Cons.IH [OF ne] show ?thesis by (simp add: Cons)
  qed
qed

lemma Unmarshal_Marshal:
  "json_Unmarshal (json_Marshal (Slice xs)) = Slice (map coerce_utf8 xs)"
proof -
  have "array (join_comma (map appendString xs) @ '']'') = map coerce_utf8 xs"
  proof (cases "xs = []")
    case True
    then show ?thesis by (simp add: array_def not_space_dquote)
  next
    case False
    from join_comma_head [OF this] obtain t where t: "join_comma (map appendString xs) = dquote # t" ..
    have "dquote \<noteq> CHR '']''" by (simp add: dquote_def)
    with array_values_join_comma [OF False] show ?thesis
      by (simp add: array_def t not_space_dquote)
  qed
  with checkValid_Marshal [of xs] show ?thesis
    by (simp add: json_Unmarshal_def) (simp add: json_Marshal_def not_space_dquote)
qed

section \<open>Properties of the permission list of a role\<close>

lemma role_Permissions_Set:
  "role_Permissions (SetPermissions p r) = json_Marshal (Slice (elems p))"
  by (cases p) (simp_all add: SetPermissions_def elems_def)

lemma json_Marshal_Slice_neq:
  "json_Marshal (Slice xs) \<noteq> ''''" "json_Marshal (Slice xs) \<noteq> ''null''"
  by (simp_all add: json_Marshal_def)

lemma GetPermissions_SetPermissions:
  "GetPermissions (SetPermissions p r) = Slice (map coerce_utf8 (elems p))"
  by (simp add: GetPermissions_def role_Permissions_Set json_Marshal_Slice_neq Unmarshal_Marshal)

lemma coerce_utf8_FF: "coerce_utf8 [CHR 0xFF] = [CHR 0xEF, CHR 0xBF, CHR 0xBD]"
  by (simp add: coerce_utf8.simps(2) byte_def RuneError_utf8_def)

text \<open>
  C8, as stated, fails: a permission string that is no valid UTF-8 does not come back.
  The byte \<open>0xFF\<close> is written as the escape of U+FFFD and read back as the three bytes
  of that character.
\<close>

theorem permissions_invalid_utf8_not_restored:
  "GetPermissions (SetPermissions (Slice [[CHR 0xFF]]) admin_role)
     = Slice [[CHR 0xEF, CHR 0xBF, CHR 0xBD]]
   \<and> GetPermissions (SetPermissions (Slice [[CHR 0xFF]]) admin_role) \<noteq> Slice [[CHR 0xFF]]"
  by (simp add: GetPermissions_SetPermissions elems_def coerce_utf8_FF)

text \<open>
  C8, amended. For every role and every slice (nil included), \<open>SetPermissions\<close> stores
  a valid JSON document that is an array, never \<open>null\<close>, and \<open>GetPermissions\<close> then
  returns the list that was set (the empty list for nil) with every byte that belongs to
  no valid UTF-8 encoding replaced by U+FFFD; it is the list that was set when all its
  strings are valid UTF-8. \<open>GetPermissions\<close> of an empty \<open>Permissions\<close> field is the
  empty list, not nil.
\<close>

theorem permissions_round_trip:
  "checkValid (role_Permissions (SetPermissions p r))
   \<and> role_Permissions (SetPermissions p r) \<noteq> ''null''
   \<and> json_Unmarshal (role_Permissions (SetPermissions p r)) \<noteq> NilSlice
   \<and> GetPermissions (SetPermissions p r) = Slice (map coerce_utf8 (elems p))
   \<and> ((\<forall>x \<in> set (elems p). valid_utf8 x) \<longrightarrow> GetPermissions (SetPermissions p r) = Slice (elems p))
   \<and> (role_Permissions r = '''' \<longrightarrow> GetPermissions r = Slice [])"
proof -
  have "(\<forall>x \<in> set (elems p). valid_utf8 x) \<longrightarrow> map coerce_utf8 (elems p) = elems p"
    by (simp add: valid_utf8_coerce map_idI)
  then show ?thesis
    by (simp add: GetPermissions_SetPermissions role_Permissions_Set json_Marshal_Slice_neq
        checkValid_Marshal Unmarshal_Marshal)
       (simp add: GetPermissions_def)
qed

lemma valid_utf8_ascii: "\<forall>c \<in> set s. byte c < 0x80 \<Longrightarrow> valid_utf8 s"
  by (induction s) (simp_all add: valid_utf8.simps(2))

theorem permissions_round_trip_witness:
  "GetPermissions (SetPermissions (Slice [''user:read'', ''a<b'']) admin_role)
     = Slice [''user:read'', ''a<b'']
   \<and> valid_utf8 ''user:read'' \<and> valid_utf8 ''a<b''
   \<and> GetPermissions (SetPermissions NilSlice admin_role) = Slice []
   \<and> GetPermissions (admin_role\<lparr>role_Permissions := ''''\<rparr>) = Slice []"
proof -
  have v: "valid_utf8 ''user:read''" "valid_utf8 ''a<b''"
    by (simp_all add: valid_utf8_ascii byte_def)
  then have e: "\<forall>x \<in> set (elems (Slice [''user:read'', ''a<b''])). valid_utf8 x"
    by (simp add: elems_def)
  from permissions_round_trip [of "Slice [''user:read'', ''a<b'']" admin_role] e
  have a: "GetPermissions (SetPermissions (Slice [''user:read'', ''a<b'']) admin_role)
             = Slice (elems (Slice [''user:read'', ''a<b'']))"
    by blast
  from permissions_round_trip [of NilSlice admin_role]
  have b: "GetPermissions (SetPermissions NilSlice admin_role)
             = Slice (map coerce_utf8 (elems NilSlice))"
    by blast
  from permissions_round_trip [of NilSlice "admin_role\<lparr>role_Permissions := ''''\<rparr>"]
  have c: "role_Permissions (admin_role\<lparr>role_Permissions := ''''\<rparr>) = ''''
             \<longrightarrow> GetPermissions (admin_role\<lparr>role_Permissions := ''''\<rparr>) = Slice []"
    by blast
  from a b c v show ?thesis
    by (simp add: elems_def)
qed

section \<open>Properties of the Authorization Gate\<close>

lemma hasRole_iff: "hasRole rs r \<longleftrightarrow> r \<in> role_Name ` set rs"
  by (induction rs) auto

lemma permission_in_iff: "permission_in ps p \<longleftrightarrow> p \<in> set ps"
  by (induction ps) auto

lemma hasPermission_iff:
  "hasPermission rs p \<longleftrightarrow> p \<in> (\<Union>x \<in> set rs. set (elems (GetPermissions x)))"
  by (induction rs) (auto simp: permission_in_iff)

text \<open>
  C6. Without an identity in the request context the role check and the permission
  check both reject with 401. With an identity, the role check rejects with 403 exactly
  when no role of the identity has the required name, and the permission check rejects
  with 403 exactly when the required permission is in no permission list of the
  identity's roles; otherwise the request goes on unchanged.
\<close>

theorem authorization_gate_fails_closed:
  "(ctx_user c = None \<longrightarrow>
      RequireRole r c = Abort (Response 401 (ErrorBody ''User not found in context''))
    \<and> RequirePermission p c = Abort (Response 401 (ErrorBody ''User not found in context'')))
   \<and> (\<forall>u. ctx_user c = Some u \<longrightarrow>
        RequireRole r c =
          (if r \<in> role_Name ` set (user_Roles u) then Next c
           else Abort (Response 403 (ErrorBody (''Role '' @ quoted r @ '' is required''))))
      \<and> RequirePermission p c =
          (if p \<in> (\<Union>x \<in> set (user_Roles u). set (elems (GetPermissions x))) then Next c
           else Abort (Response 403 (ErrorBody (''Permission '' @ quoted p @ '' is required'')))))"
  by (simp add: RequireRole_def RequirePermission_def unauthorized_def StatusUnauthorized_def
      StatusForbidden_def hasRole_iff hasPermission_iff)

lemma admin_permissions: "GetPermissions admin_role = Slice [''user:read'', ''user:update'']"
  by code_simp

theorem authorization_gate_fails_closed_witness:
  "RequireRole ''admin'' \<lparr>ctx_user = Some alice, ctx_user_id = Some 1, ctx_session = None\<rparr>
     = Next \<lparr>ctx_user = Some alice, ctx_user_id = Some 1, ctx_session = None\<rparr>
   \<and> RequirePermission ''user:delete''
        \<lparr>ctx_user = Some alice, ctx_user_id = Some 1, ctx_session = None\<rparr>
     = Abort (Response 403 (ErrorBody ''Permission 'user:delete' is required''))
   \<and> RequireRole ''admin'' empty_context
     = Abort (Response 401 (ErrorBody ''User not found in context''))"
proof -
  have r: "user_Roles alice = [admin_role]" and n: "role_Name admin_role = ''admin''"
    by (simp_all add: alice_def admin_role_def SetPermissions_def)
  from authorization_gate_fails_closed
         [of "\<lparr>ctx_user = Some alice, ctx_user_id = Some 1, ctx_session = None\<rparr>"
             "''admin''" "''user:delete''"]
       authorization_gate_fails_closed [of empty_context "''admin''" "''user:delete''"]
  show ?thesis
    by (simp add: r n admin_permissions elems_def quoted_def empty_context_def)
qed

section \<open>Properties of the Session Issuer\<close>

lemma find_alice: "find_user_by_login d_init ''alice'' = Inr alice"
  by (simp add: find_user_by_login_def d_init_def visible_users_def alice_def bob_def
      zero_user_def)

lemma find_bob: "find_user_by_login d_init ''bob'' = Inr bob"
  by (simp add: find_user_by_login_def d_init_def visible_users_def alice_def bob_def
      zero_user_def)


text \<open>
  C1, as stated, fails: on the concrete installation a wrong password for the active
  account \<open>alice\<close> is answered with "Invalid credentials", and any password for the
  disabled account \<open>bob\<close> with "Account is disabled". Both are 401, the messages differ.
\<close>

theorem Login_disabled_account_message_differs:
  "find_user_by_login d_init ''alice'' = Inr alice \<and> user_IsActive alice
   \<and> \<not> bcrypt_ok L0 (user_Password alice) ''guess''
   \<and> snd (Login L0 cfg0 env0 d_init (login_request ''alice'' ''guess''))
        = Response 401 (ErrorBody ''Invalid credentials'')
   \<and> find_user_by_login d_init ''bob'' = Inr bob \<and> \<not> user_IsActive bob
   \<and> snd (Login L0 cfg0 env0 d_init (login_request ''bob'' ''guess''))
        = Response 401 (ErrorBody ''Account is disabled'')
   \<and> snd (Login L0 cfg0 env0 d_init (login_request ''alice'' ''guess''))
        \<noteq> snd (Login L0 cfg0 env0 d_init (login_request ''bob'' ''guess''))"
  by (simp add: Login_def login_request_def find_alice find_bob alice_def bob_def L0_def
      zero_user_def unauthorized_def StatusUnauthorized_def)

text \<open>
  C1, amended. When the matched account is inactive, \<open>Login\<close> fails with 401 and the
  message "Account is disabled", whatever the password; when the matched account is
  active and the password does not verify against the stored hash, it fails with 401
  and the message "Invalid credentials". The store is left unchanged in both cases.
\<close>

theorem Login_rejection_messages:
  assumes "find_user_by_login d (req_Username req) = Inr u"
  shows "(\<not> user_IsActive u \<longrightarrow>
            Login L cfg env d (Bound req) = (d, Response 401 (ErrorBody ''Account is disabled'')))
       \<and> (user_IsActive u \<and> \<not> bcrypt_ok L (user_Password u) (req_Password req) \<longrightarrow>
            Login L cfg env d (Bound req) = (d, Response 401 (ErrorBody ''Invalid credentials'')))"
  using assms by (simp add: Login_def unauthorized_def StatusUnauthorized_def)

theorem Login_rejection_messages_witness:
  "Login L0 cfg0 env0 d_init (Bound \<lparr>req_Username = ''bob'', req_Password = ''builder''\<rparr>)
     = (d_init, Response 401 (ErrorBody ''Account is disabled''))
   \<and> Login L0 cfg0 env0 d_init (Bound \<lparr>req_Username = ''alice'', req_Password = ''builder''\<rparr>)
     = (d_init, Response 401 (ErrorBody ''Invalid credentials''))"
proof -
  have b: "find_user_by_login d_init
             (req_Username \<lparr>req_Username = ''bob'', req_Password = ''builder''\<rparr>) = Inr bob"
    by (simp add: find_bob)
  have a: "find_user_by_login d_init
             (req_Username \<lparr>req_Username = ''alice'', req_Password = ''builder''\<rparr>) = Inr alice"
    by (simp add: find_alice)
  have "\<not> user_IsActive bob" and "user_IsActive alice"
    and "\<not> bcrypt_ok L0 (user_Password alice) ''builder''"
    by (simp_all add: bob_def alice_def zero_user_def L0_def)
  with Login_rejection_messages [OF b, of L0 cfg0 env0]
       Login_rejection_messages [OF a, of L0 cfg0 env0]
  show ?thesis by simp
qed

lemma ExpiresIn_day: "int64_of_float64 (Seconds (86400 * Second)) = 86400"
  by code_simp

lemma ExpiresIn_cfg0: "ExpiresIn cfg0 = 86400"
  by (simp add: ExpiresIn_def cfg0_def ExpiresIn_day)

text \<open>
  \<open>Seconds\<close> is a \<open>float64\<close>: from \<open>2 ^ 24\<close> seconds on, a duration one nanosecond short of
  a whole second is rounded up to it.
\<close>

lemma ExpiresIn_rounds_up:
  "ExpiresIn (cfg0\<lparr>JWT_Expiry := 16777216999999999\<rparr>) = 16777217
   \<and> ExpiresIn (cfg0\<lparr>JWT_Expiry := 16777215999999999\<rparr>) = 16777215"
proof -
  have "int64_of_float64 (Seconds 16777216999999999) = 16777217"
    and "int64_of_float64 (Seconds 16777215999999999) = 16777215"
    by code_simp+
  then show ?thesis by (simp add: ExpiresIn_def)
qed





lemma Create_session_alice:
  "Create_session env0 d_init (new_session cfg0 env0 alice) =
     Inr (d_init\<lparr>sessions := [alice_session]\<rparr>, alice_session)"
  by (simp add: Create_session_def Let_def BeforeCreate_def column_defaults_def insert_session_def
      new_session_def row_of_def uuid_Nil_def env0_def d_init_def alice_session_def alice_def
      zero_user_def)

lemma alice_signs:
  "generateAccessToken L0 cfg0 1000 1 (uuid_String 7) = Some access_tok"
  "generateRefreshToken L0 cfg0 1000 1 (uuid_String 7) = Some refresh_tok"
  by (simp_all add: generateAccessToken_def generateRefreshToken_def access_claims_def
      refresh_claims_def L0_def access_tok_def refresh_tok_def)

lemma alice_facts:
  "session_Token alice_session = uuid_String 7" "user_ID alice = 1"
  "user_IsActive alice" "bcrypt_ok L0 (user_Password alice) ''wonderland''"
  "\<not> bcrypt_ok L0 (user_Password alice) ''guess''" "\<not> user_IsActive bob"
  by (simp_all add: alice_session_def alice_def bob_def zero_user_def L0_def)

lemma Login_alice:
  "Login L0 cfg0 env0 d_init (login_request ''alice'' ''wonderland'') =
     (d_login,
      Response 200
        (LoginBody \<lparr>resp_User = alice\<lparr>user_LastLoginAt := Some 1000, user_Password := ''''\<rparr>,
                    resp_AccessToken = access_tok,
                    resp_RefreshToken = refresh_tok,
                    resp_ExpiresIn = 86400\<rparr>))"
proof -
  have s: "Save_user (d_init\<lparr>sessions := [alice_session]\<rparr>) (alice\<lparr>user_LastLoginAt := Some 1000\<rparr>)
             = d_login"
    by (simp add: Save_user_def d_init_def d_login_def alice_def bob_def zero_user_def)
  have e: "env_now env0 = 1000"
    by (simp add: env0_def)
  show ?thesis
    by (simp add: Login_def login_request_def find_alice Create_session_alice alice_facts
        alice_signs s e ExpiresIn_cfg0 StatusOK_def)
qed


section \<open>Properties of the user list\<close>

lemma Atoi_2: "Atoi ''2'' = 2"
  by (simp add: Atoi_def isDigit_def between_def byte_def)

lemma Atoi_10: "Atoi ''10'' = 10"
  by (simp add: Atoi_def isDigit_def between_def byte_def)

text \<open>
  C7. On a store that answers and holds exactly 25 users (rows not soft-deleted), the
  request \<open>page=2&limit=10\<close> without a search term is answered with 200, the ten users
  at positions 11 to 20 with their passwords blanked, and a pagination object with
  \<open>total_pages = 3\<close>.
\<close>

theorem GetUsers_page_2_of_25:
  assumes "db_up d" and "length (visible_users d) = 25"
    and "q ''page'' = Some ''2''" and "q ''limit'' = Some ''10''" and "q ''search'' = None"
  shows "GetUsers L d q =
           Response 200
             (UsersBody (map (\<lambda>u. u\<lparr>user_Password := ''''\<rparr>) (take 10 (drop 10 (visible_users d))))
                \<lparr>current_page = 2, total_pages = 3, total_items = 25, items_per_page = 10\<rparr>)
       \<and> length (map (\<lambda>u. u\<lparr>user_Password := ''''\<rparr>) (take 10 (drop 10 (visible_users d)))) = 10"
proof -
  have w: "wrap64 10 = 10" "wrap64 35 = 35" "wrap64 34 = 34"
    by (simp_all add: wrap64_def)
  have g: "go_div 34 10 = 3"
    by (simp add: go_div_def)
  from assms show ?thesis
    by (simp add: GetUsers_def DefaultQuery_def Query_def Atoi_2 Atoi_10 search_users_def
        w g StatusOK_def Let_def)
qed

theorem GetUsers_page_2_of_25_witness:
  "(\<exists>found. GetUsers L0 d25 [''page'' \<mapsto> ''2'', ''limit'' \<mapsto> ''10''] =
       Response 200 (UsersBody found
          \<lparr>current_page = 2, total_pages = 3, total_items = 25, items_per_page = 10\<rparr>)
       \<and> length found = 10)
   \<and> length (visible_users d25) = 25"
proof -
  have v: "visible_users d25 = users d25"
    by (simp add: visible_users_def d25_def numbered_user_def zero_user_def)
  have l: "length (visible_users d25) = 25"
    unfolding v by (simp add: d25_def)
  have "db_up d25" by (simp add: d25_def)
  from GetUsers_page_2_of_25 [OF this l, of "[''page'' \<mapsto> ''2'', ''limit'' \<mapsto> ''10'']" L0] l
  show ?thesis by simp
qed

section \<open>Lemmas about the store\<close>

lemma uuid_String_nonempty: "uuid_String u \<noteq> ''''"
  by (simp add: uuid_String_def)

lemma first_by_in: "first_by key xs = Some x \<Longrightarrow> x \<in> set xs"
  by (induction xs arbitrary: x) (auto split: option.splits if_splits)

lemma first_by_Nil: "first_by key xs = None \<longleftrightarrow> xs = []"
  by (cases xs) (auto split: option.splits)

lemma preload_User_fields:
  "session_ID (preload_User d r) = session_ID r"
  "session_Token (preload_User d r) = session_Token r"
  "session_IsActive (preload_User d r) = session_IsActive r"
  "session_ExpiresAt (preload_User d r) = session_ExpiresAt r"
  by (simp_all add: preload_User_def)

lemma row_of_fields:
  "session_ID (row_of s) = session_ID s"
  "session_Token (row_of s) = session_Token s"
  "session_IsActive (row_of s) = session_IsActive s"
  by (simp_all add: row_of_def)

lemma find_active_session_Inr:
  assumes "find_active_session L d t u = Inr s"
  shows "\<exists>r \<in> set (sessions d). s = preload_User d r \<and> session_Token r = t \<and> session_IsActive r"
proof -
  from assms obtain uid r where
    "first_by session_ID
       (filter (\<lambda>s. session_Token s = t \<and> session_UserID s = uid \<and> session_IsActive s)
          (sessions d)) = Some r"
    and s: "s = preload_User d r"
    by (auto simp: find_active_session_def split: if_splits option.splits)
  from first_by_in [OF this(1)] s show ?thesis by auto
qed

lemma find_active_session_inactive:
  assumes "schema_ok d" and "r \<in> set (sessions d)" and "\<not> session_IsActive r"
  shows "\<exists>e. find_active_session L d (session_Token r) u = Inl e"
proof (cases "find_active_session L d (session_Token r) u")
  case (Inl e)
  then show ?thesis by blast
next
  case (Inr s)
  from find_active_session_Inr [OF this] obtain r' where
    r': "r' \<in> set (sessions d)" "session_Token r' = session_Token r" "session_IsActive r'"
    by blast
  from assms(1) have "inj_on session_Token (set (sessions d))"
    by (simp add: schema_ok_def distinct_map)
  with r' assms(2) have "r' = r" by (auto dest: inj_onD)
  with r' assms(3) show ?thesis by simp
qed

lemma find_active_session_empty_token:
  assumes "\<forall>s \<in> set (sessions d). session_Token s \<noteq> ''''"
  shows "\<exists>e. find_active_session L d '''' u = Inl e"
proof (cases "find_active_session L d '''' u")
  case (Inl e)
  then show ?thesis by blast
next
  case (Inr s)
  from find_active_session_Inr [OF this] assms show ?thesis by auto
qed

lemma insert_session_Inr:
  assumes "insert_session d s = Inr d'"
  shows "sessions d' = sessions d @ [row_of s]"
    and "session_ID s \<notin> session_ID ` set (sessions d)"
    and "session_Token s \<notin> session_Token ` set (sessions d)"
  using assms by (auto simp: insert_session_def split: if_splits)

lemma update_session_Inr:
  assumes "update_session d s = Inr d'"
  shows "sessions d' = map (\<lambda>r. if session_ID r = session_ID s then row_of s else r) (sessions d)"
    and "\<forall>r \<in> set (sessions d). session_ID r \<noteq> session_ID s \<longrightarrow> session_Token r \<noteq> session_Token s"
  using assms by (auto simp: update_session_def split: if_splits)

lemma Save_session_Inr:
  assumes "Save_session env d s = Inr d'"
  shows "(\<exists>s'. insert_session d s' = Inr d' \<and> session_Token s' = session_Token s
              \<and> session_IsActive s')
       \<or> update_session d s = Inr d'"
  using assms
  by (auto simp: Save_session_def Create_session_def BeforeCreate_def column_defaults_def Let_def
      split: if_splits sum.splits)

lemma AuthMiddleware_Next:
  assumes "AuthMiddleware L cfg d now h = Next c"
  shows "\<exists>r \<in> set (sessions d). session_IsActive r \<and> ctx_session c = Some (preload_User d r)"
proof -
  from assms obtain t u s where "find_active_session L d t u = Inr s" and "ctx_session c = Some s"
    by (auto simp: AuthMiddleware_def Let_def split: if_splits option.splits sum.splits)
  with find_active_session_Inr [OF this(1)] show ?thesis by auto
qed

lemma sessions_Save_user: "sessions (Save_user d u) = sessions d"
  by (simp add: Save_user_def)

lemma Create_session_Inr:
  assumes "Create_session env d s = Inr (d1, s1)"
  shows "insert_session d (column_defaults (BeforeCreate env s)) = Inr d1"
  using assms by (auto simp: Create_session_def Let_def split: sum.splits)

lemma Login_store:
  assumes "Login L cfg env d b = (d', r)"
  shows "d' = d
       \<or> (\<exists>u d1 s. Create_session env d (new_session cfg env u) = Inr (d1, s)
              \<and> (d' = d1 \<or> d' = Save_user d1 (u\<lparr>user_LastLoginAt := Some (env_now env)\<rparr>)))"
  using assms
  by (auto simp: Login_def Let_def
      split: bind.splits sum.splits option.splits if_splits prod.splits)

lemma Login_sessions:
  assumes "Login L cfg env d b = (d', r)"
  shows "sessions d' = sessions d
       \<or> (\<exists>s d1. insert_session d s = Inr d1 \<and> sessions d' = sessions d1
                 \<and> session_Token s = uuid_String (env_token_uuid env))"
proof -
  from Login_store [OF assms] show ?thesis
  proof
    assume "d' = d"
    then show ?thesis by simp
  next
    assume "\<exists>u d1 s. Create_session env d (new_session cfg env u) = Inr (d1, s)
              \<and> (d' = d1 \<or> d' = Save_user d1 (u\<lparr>user_LastLoginAt := Some (env_now env)\<rparr>))"
    then obtain u d1 s where c: "Create_session env d (new_session cfg env u) = Inr (d1, s)"
      and d': "sessions d' = sessions d1"
      by (auto simp: sessions_Save_user)
    have "session_Token (column_defaults (BeforeCreate env (new_session cfg env u)))
            = uuid_String (env_token_uuid env)"
      by (simp add: BeforeCreate_def column_defaults_def new_session_def)
    with Create_session_Inr [OF c] d' show ?thesis by blast
  qed
qed

lemma logout_route_sessions:
  assumes "logout_route L cfg env d h = (d', resp)"
  shows "d' = d
       \<or> (\<exists>r \<in> set (sessions d).
            Save_session env d ((preload_User d r)\<lparr>session_IsActive := False\<rparr>) = Inr d')"
proof (cases "AuthMiddleware L cfg d (env_now env) h")
  case (Abort x)
  with assms show ?thesis by (simp add: logout_route_def)
next
  case (Next c)
  from AuthMiddleware_Next [OF this] obtain r where
    r: "r \<in> set (sessions d)" "ctx_session c = Some (preload_User d r)" by blast
  with assms Next show ?thesis
    by (auto simp: logout_route_def Logout_def split: sum.splits)
qed

section \<open>Invariants of the sessions table\<close>

lemma distinct_map_replace:
  assumes "distinct (map k xs)" and "distinct (map t xs)"
    and "\<forall>r \<in> set xs. k r \<noteq> i \<longrightarrow> t r \<noteq> t s"
  shows "distinct (map (\<lambda>r. t (if k r = i then s else r)) xs)"
  using assms
proof (induction xs)
  case Nil
  then show ?case by simp
next
  case (Cons x xs)
  then have IH: "distinct (map (\<lambda>r. t (if k r = i then s else r)) xs)"
    by simp
  have "t (if k x = i then s else x) \<notin> (\<lambda>r. t (if k r = i then s else r)) ` set xs"
  proof (cases "k x = i")
    case True
    with Cons.prems(1) have "\<forall>r \<in> set xs. k r \<noteq> i" by (auto simp: image_iff)
    with Cons.prems(3) True show ?thesis by auto
  next
    case False
    with Cons.prems(3) have 1: "t x \<noteq> t s" by simp
    from Cons.prems(2) have 2: "\<forall>r \<in> set xs. t x \<noteq> t r" by auto
    from 1 2 False show ?thesis by (auto split: if_splits)
  qed
  with IH show ?case by simp
qed

lemma schema_ok_insert:
  assumes "schema_ok d" and "insert_session d s = Inr d'"
  shows "schema_ok d'"
  using assms insert_session_Inr [OF assms(2)]
  by (auto simp: schema_ok_def row_of_fields)

lemma schema_ok_update:
  assumes "schema_ok d" and "update_session d s = Inr d'"
  shows "schema_ok d'"
proof -
  note u = update_session_Inr [OF assms(2)]
  have ids: "map session_ID (sessions d') = map session_ID (sessions d)"
    by (simp add: u(1) row_of_fields cong: map_cong)
  from u(2) have "\<forall>r \<in> set (sessions d). session_ID r \<noteq> session_ID s
                    \<longrightarrow> session_Token r \<noteq> session_Token (row_of s)"
    by (simp add: row_of_fields)
  with assms(1) have "distinct (map (\<lambda>r. session_Token
                             (if session_ID r = session_ID s then row_of s else r)) (sessions d))"
    unfolding schema_ok_def by (intro distinct_map_replace) auto
  then have "distinct (map session_Token (sessions d'))"
    by (simp add: u(1) comp_def)
  with assms(1) ids show ?thesis by (simp add: schema_ok_def)
qed

lemma schema_ok_Save:
  assumes "schema_ok d" and "Save_session env d s = Inr d'"
  shows "schema_ok d'"
  using Save_session_Inr [OF assms(2)] assms(1) schema_ok_insert schema_ok_update by blast

lemma schema_ok_step:
  assumes "store_step L d d'" and "schema_ok d"
  shows "schema_ok d'"
  using assms
proof cases
  case (login cfg env b r)
  from Login_sessions [OF this] show ?thesis
  proof
    assume "sessions d' = sessions d"
    with assms(2) show ?thesis by (simp add: schema_ok_def)
  next
    assume "\<exists>s d1. insert_session d s = Inr d1 \<and> sessions d' = sessions d1
              \<and> session_Token s = uuid_String (env_token_uuid env)"
    then obtain s d1 where "insert_session d s = Inr d1" and "sessions d' = sessions d1"
      by blast
    with schema_ok_insert [OF assms(2) this(1)] show ?thesis by (simp add: schema_ok_def)
  qed
next
  case (logout cfg env authHeader r)
  from logout_route_sessions [OF this] assms(2) schema_ok_Save show ?thesis by blast
next
  case other
  with assms(2) show ?thesis by (simp add: schema_ok_def)
qed

lemma schema_ok_steps:
  assumes "(store_step L)\<^sup>*\<^sup>* d d'" and "schema_ok d"
  shows "schema_ok d'"
  using assms by (induction rule: rtranclp_induct) (auto intro: schema_ok_step)

lemma revoked_insert:
  assumes "revoked t d" and "insert_session d s = Inr d'"
  shows "revoked t d'"
  using assms(1) insert_session_Inr(1) [OF assms(2)] by (auto simp: revoked_def)

lemma revoked_update:
  assumes "schema_ok d" and "revoked t d" and "r0 \<in> set (sessions d)"
    and "update_session d ((preload_User d r0)\<lparr>session_IsActive := False\<rparr>) = Inr d'"
  shows "revoked t d'"
proof -
  let ?s = "(preload_User d r0)\<lparr>session_IsActive := False\<rparr>"
  from assms(2) obtain r where r: "r \<in> set (sessions d)" "session_Token r = t"
    "\<not> session_IsActive r" by (auto simp: revoked_def)
  have s: "session_ID ?s = session_ID r0" "session_Token (row_of ?s) = session_Token r0"
    "\<not> session_IsActive (row_of ?s)"
    by (simp_all add: preload_User_def row_of_def)
  note u = update_session_Inr(1) [OF assms(4)]
  show ?thesis
  proof (cases "session_ID r = session_ID r0")
    case True
    from assms(1) have "inj_on session_ID (set (sessions d))"
      by (simp add: schema_ok_def distinct_map)
    with True r(1) assms(3) have "r = r0" by (auto dest: inj_onD)
    moreover from r(1) True have "row_of ?s \<in> set (sessions d')"
      unfolding u s(1) by force
    ultimately show ?thesis using r(2) s(2,3) by (auto simp: revoked_def)
  next
    case False
    with r(1) have "r \<in> set (sessions d')"
      unfolding u s(1) by force
    with r(2,3) show ?thesis by (auto simp: revoked_def)
  qed
qed

lemma revoked_step:
  assumes "store_step L d d'" and "schema_ok d" and "revoked t d"
  shows "revoked t d'"
  using assms(1)
proof cases
  case (login cfg env b r)
  from Login_sessions [OF this] show ?thesis
  proof
    assume "sessions d' = sessions d"
    with assms(3) show ?thesis by (simp add: revoked_def)
  next
    assume "\<exists>s d1. insert_session d s = Inr d1 \<and> sessions d' = sessions d1
              \<and> session_Token s = uuid_String (env_token_uuid env)"
    then obtain s d1 where "insert_session d s = Inr d1" and "sessions d' = sessions d1"
      by blast
    with revoked_insert [OF assms(3) this(1)] show ?thesis by (simp add: revoked_def)
  qed
next
  case (logout cfg env authHeader resp)
  from logout_route_sessions [OF this] show ?thesis
  proof
    assume "d' = d"
    with assms(3) show ?thesis by simp
  next
    assume "\<exists>r \<in> set (sessions d).
              Save_session env d ((preload_User d r)\<lparr>session_IsActive := False\<rparr>) = Inr d'"
    then obtain r0 where r0: "r0 \<in> set (sessions d)"
      and sv: "Save_session env d ((preload_User d r0)\<lparr>session_IsActive := False\<rparr>) = Inr d'"
      by blast
    from Save_session_Inr [OF sv] revoked_insert [OF assms(3)]
         revoked_update [OF assms(2,3) r0]
    show ?thesis by blast
  qed
next
  case other
  with assms(3) show ?thesis by (simp add: revoked_def)
qed

lemma revoked_steps:
  assumes "(store_step L)\<^sup>*\<^sup>* d d'" and "schema_ok d" and "revoked t d"
  shows "schema_ok d' \<and> revoked t d'"
  using assms
  by (induction rule: rtranclp_induct) (auto intro: schema_ok_step revoked_step)

lemma revoked_no_session:
  assumes "schema_ok d" and "revoked t d"
  shows "\<exists>e. find_active_session L d t u = Inl e"
  using assms find_active_session_inactive by (auto simp: revoked_def)

lemma tokens_nonempty_insert:
  assumes "tokens_nonempty d" and "insert_session d s = Inr d'" and "session_Token s \<noteq> ''''"
  shows "tokens_nonempty d'"
  using assms insert_session_Inr(1) [OF assms(2)]
  by (auto simp: tokens_nonempty_def row_of_fields)

lemma tokens_nonempty_step:
  assumes "store_step L d d'" and "tokens_nonempty d"
  shows "tokens_nonempty d'"
  using assms(1)
proof cases
  case (login cfg env b r)
  from Login_sessions [OF this] show ?thesis
  proof
    assume "sessions d' = sessions d"
    with assms(2) show ?thesis by (simp add: tokens_nonempty_def)
  next
    assume "\<exists>s d1. insert_session d s = Inr d1 \<and> sessions d' = sessions d1
              \<and> session_Token s = uuid_String (env_token_uuid env)"
    then obtain s d1 where "insert_session d s = Inr d1" and "sessions d' = sessions d1"
      and "session_Token s \<noteq> ''''"
      by (auto simp: uuid_String_nonempty)
    with tokens_nonempty_insert [OF assms(2) this(1)] show ?thesis
      by (simp add: tokens_nonempty_def)
  qed
next
  case (logout cfg env authHeader resp)
  from logout_route_sessions [OF this] show ?thesis
  proof
    assume "d' = d"
    with assms(2) show ?thesis by simp
  next
    assume "\<exists>r \<in> set (sessions d).
              Save_session env d ((preload_User d r)\<lparr>session_IsActive := False\<rparr>) = Inr d'"
    then obtain r0 where r0: "r0 \<in> set (sessions d)"
      and sv: "Save_session env d ((preload_User d r0)\<lparr>session_IsActive := False\<rparr>) = Inr d'"
      by blast
    let ?s = "(preload_User d r0)\<lparr>session_IsActive := False\<rparr>"
    from r0 assms(2) have ne: "session_Token ?s \<noteq> ''''"
      by (simp add: tokens_nonempty_def preload_User_def)
    from Save_session_Inr [OF sv] show ?thesis
    proof
      assume "\<exists>s'. insert_session d s' = Inr d' \<and> session_Token s' = session_Token ?s
                \<and> session_IsActive s'"
      with ne tokens_nonempty_insert [OF assms(2)] show ?thesis by metis
    next
      assume "update_session d ?s = Inr d'"
      from update_session_Inr(1) [OF this] assms(2) ne show ?thesis
        by (auto simp: tokens_nonempty_def row_of_fields)
    qed
  qed
next
  case other
  with assms(2) show ?thesis by (simp add: tokens_nonempty_def)
qed

lemma reachable_tokens_nonempty:
  assumes "reachable L d"
  shows "tokens_nonempty d"
proof -
  from assms obtain d0 where "sessions d0 = []" and s: "(store_step L)\<^sup>*\<^sup>* d0 d"
    by (auto simp: reachable_def)
  then have "tokens_nonempty d0" by (simp add: tokens_nonempty_def)
  with s show ?thesis
    by (induction rule: rtranclp_induct) (auto intro: tokens_nonempty_step)
qed

section \<open>Properties of the Request Authenticator and of Token Refresh\<close>

lemma jwt_Parse_keyFunc:
  "jwt_Parse L now t (refresh_keyFunc cfg) = jwt_Parse L now t (auth_keyFunc cfg)"
  by (simp add: jwt_Parse_def refresh_keyFunc_def auth_keyFunc_def split: option.splits)

lemma jwt_Parse_decode:
  "jwt_Parse L now t kf = Some cl \<Longrightarrow> \<exists>m. jwt_decode L t = Some (m, cl)"
  by (auto simp: jwt_Parse_def split: option.splits sum.splits if_splits)

lemma TrimPrefix_Bearer: "TrimPrefix (''Bearer '' @ tok) ''Bearer '' = tok"
  by (simp add: TrimPrefix_def)

lemma claim_string_Some: "claim_string cl k = Some s \<longleftrightarrow> cl k = Some (JString s)"
  by (auto simp: claim_string_def split: option.splits jvalue.splits)

text \<open>The authenticator on a header \<open>Bearer tok\<close>.\<close>

lemma AuthMiddleware_Bearer:
  "AuthMiddleware L cfg d now (''Bearer '' @ tok) =
     (case jwt_Parse L now tok (auth_keyFunc cfg) of
        None \<Rightarrow> Abort (unauthorized ''Invalid token'')
      | Some cl \<Rightarrow>
          (case claim_string cl ''user_id'' of
             None \<Rightarrow> Abort (unauthorized ''Invalid user ID in token'')
           | Some userID \<Rightarrow>
               (case claim_string cl ''session_token'' of
                  None \<Rightarrow> Abort (unauthorized ''Invalid session token in claims'')
                | Some sessionToken \<Rightarrow>
                    (case find_active_session L d sessionToken userID of
                       Inl err \<Rightarrow> Abort (unauthorized ''Invalid session'')
                     | Inr session \<Rightarrow>
                         if IsExpired session now
                         then Abort (unauthorized ''Session expired'')
                         else Next \<lparr>ctx_user = Some (session_User session),
                                    ctx_user_id = Some (user_ID (session_User session)),
                                    ctx_session = Some session\<rparr>))))"
proof -
  have "length tok \<noteq> length (''Bearer '' @ tok)" by simp
  then have "tok \<noteq> ''Bearer '' @ tok" by metis
  then show ?thesis
    unfolding AuthMiddleware_def TrimPrefix_Bearer Let_def by simp
qed

lemmas AuthMiddleware_Bearer_cons = AuthMiddleware_Bearer [simplified]

lemma logout_route_revokes:
  assumes "logout_route L cfg env d h = (d', Response 200 b)"
    and "AuthMiddleware L cfg d (env_now env) h = Next c" and "ctx_session c = Some s"
  shows "revoked (session_Token s) d'"
proof -
  from AuthMiddleware_Next [OF assms(2)] assms(3) obtain r where
    r: "r \<in> set (sessions d)" "s = preload_User d r" by auto
  let ?s = "s\<lparr>session_IsActive := False\<rparr>"
  from assms have sv: "Save_session env d ?s = Inr d'"
    by (auto simp: logout_route_def Logout_def internal_error_def
        StatusInternalServerError_def split: sum.splits)
  from Save_session_Inr [OF sv] show ?thesis
  proof
    assume "\<exists>s'. insert_session d s' = Inr d' \<and> session_Token s' = session_Token ?s
              \<and> session_IsActive s'"
    then obtain s' where "insert_session d s' = Inr d'" "session_Token s' = session_Token r"
      by (auto simp: r(2) preload_User_def)
    with insert_session_Inr(3) [OF this(1)] r(1) show ?thesis by auto
  next
    assume "update_session d ?s = Inr d'"
    from update_session_Inr(1) [OF this] r(1)
    have "row_of ?s \<in> set (sessions d')"
      by (force simp: r(2) preload_User_def)
    moreover have "session_Token (row_of ?s) = session_Token s"
      and "\<not> session_IsActive (row_of ?s)"
      by (simp_all add: row_of_def)
    ultimately show ?thesis
      unfolding revoked_def by blast
  qed
qed

text \<open>
  C3. In a store that satisfies the key constraints, take a session whose active flag
  is false, as \<open>Logout\<close> leaves it (lemma \<open>logout_route_revokes\<close>). In that store and
  in every store that later logins, logouts and other requests lead to, a request whose
  bearer token decodes to claims carrying that session's token is rejected by the
  authenticator with 401, and so is a refresh with that token, whatever the token's and
  the session's expiry.
\<close>

theorem inactive_session_rejected:
  assumes "schema_ok d" and "s \<in> set (sessions d)" and "\<not> session_IsActive s"
    and "(store_step L)\<^sup>*\<^sup>* d d'"
    and "jwt_decode L tok = Some (m, cl)"
    and "cl ''session_token'' = Some (JString (session_Token s))"
  shows "(\<exists>msg. AuthMiddleware L cfg d' now (''Bearer '' @ tok)
                  = Abort (Response 401 (ErrorBody msg)))
       \<and> (\<exists>msg. RefreshToken L cfg d' now (Bound \<lparr>req_RefreshToken = tok\<rparr>)
                  = Response 401 (ErrorBody msg))"
proof -
  from assms(2,3) have "revoked (session_Token s) d" by (auto simp: revoked_def)
  from revoked_steps [OF assms(4,1) this]
  have no: "\<And>u. \<exists>e. find_active_session L d' (session_Token s) u = Inl e"
    by (auto intro: revoked_no_session)
  have st: "\<And>cl'. jwt_Parse L now tok (auth_keyFunc cfg) = Some cl'
              \<Longrightarrow> claim_string cl' ''session_token'' = Some (session_Token s)"
    using jwt_Parse_decode assms(5,6) by (fastforce simp: claim_string_Some)
  have a: "\<exists>msg. AuthMiddleware L cfg d' now (''Bearer '' @ tok)
                  = Abort (Response 401 (ErrorBody msg))"
  proof (cases "jwt_Parse L now tok (auth_keyFunc cfg)")
    case None
    then show ?thesis
      by (simp add: AuthMiddleware_Bearer_cons unauthorized_def StatusUnauthorized_def)
  next
    case (Some cl')
    show ?thesis
    proof (cases "claim_string cl' ''user_id''")
      case None
      with Some show ?thesis
        by (simp add: AuthMiddleware_Bearer_cons unauthorized_def StatusUnauthorized_def)
    next
      case (Some u)
      from no [of u] obtain e where "find_active_session L d' (session_Token s) u = Inl e" ..
      with Some \<open>jwt_Parse L now tok (auth_keyFunc cfg) = Some cl'\<close> st show ?thesis
        by (simp add: AuthMiddleware_Bearer_cons unauthorized_def StatusUnauthorized_def)
    qed
  qed
  have b: "\<exists>msg. RefreshToken L cfg d' now (Bound \<lparr>req_RefreshToken = tok\<rparr>)
                  = Response 401 (ErrorBody msg)"
  proof (cases "jwt_Parse L now tok (refresh_keyFunc cfg)")
    case None
    then show ?thesis
      by (simp add: RefreshToken_def unauthorized_def StatusUnauthorized_def)
  next
    case (Some cl')
    then have "claim_string_or_empty cl' ''session_token'' = session_Token s"
      using st by (simp add: jwt_Parse_keyFunc claim_string_or_empty_def)
    moreover from no obtain e where
      "find_active_session L d' (session_Token s) (claim_string_or_empty cl' ''user_id'') = Inl e"
      by blast
    ultimately show ?thesis using Some
      by (simp add: RefreshToken_def Let_def unauthorized_def StatusUnauthorized_def)
  qed
  from a b show ?thesis ..
qed

text \<open>
  C4. On a reachable store, a refresh that succeeds was presented a token whose claims
  carry the token of an active session row; the access token in the response is the
  signature of claims that carry the same \<open>session_token\<close> value, and the
  \<open>refresh_token\<close> field is the string of the request. The handler does not write the
  store, so no session is created.
\<close>

theorem RefreshToken_keeps_session:
  assumes "reachable L d" and "RefreshToken L cfg d now (Bound req) = Response 200 b"
  shows "\<exists>cl r resp.
           jwt_Parse L now (req_RefreshToken req) (refresh_keyFunc cfg) = Some cl
         \<and> r \<in> set (sessions d) \<and> session_IsActive r
         \<and> cl ''session_token'' = Some (JString (session_Token r))
         \<and> b = LoginBody resp
         \<and> jwt_SignedString L
              (access_claims cfg now (user_ID (session_User (preload_User d r))) (session_Token r))
              (JWT_Secret cfg) = Some (resp_AccessToken resp)
         \<and> access_claims cfg now (user_ID (session_User (preload_User d r))) (session_Token r)
              ''session_token'' = cl ''session_token''
         \<and> resp_RefreshToken resp = req_RefreshToken req"
proof -
  from assms(2) obtain cl session at where
    p: "jwt_Parse L now (req_RefreshToken req) (refresh_keyFunc cfg) = Some cl"
    and f: "find_active_session L d (claim_string_or_empty cl ''session_token'')
              (claim_string_or_empty cl ''user_id'') = Inr session"
    and g: "generateAccessToken L cfg now (user_ID (session_User session)) (session_Token session)
              = Some at"
    and b: "b = LoginBody \<lparr>resp_User = (session_User session)\<lparr>user_Password := ''''\<rparr>,
                           resp_AccessToken = at,
                           resp_RefreshToken = req_RefreshToken req,
                           resp_ExpiresIn = ExpiresIn cfg\<rparr>"
    by (auto simp: RefreshToken_def Let_def unauthorized_def internal_error_def
        StatusUnauthorized_def StatusInternalServerError_def StatusOK_def
        split: option.splits sum.splits if_splits)
  from find_active_session_Inr [OF f] obtain r where
    r: "r \<in> set (sessions d)" "session = preload_User d r"
       "session_Token r = claim_string_or_empty cl ''session_token''" "session_IsActive r"
    by blast
  from reachable_tokens_nonempty [OF assms(1)] r(1) have "session_Token r \<noteq> ''''"
    by (simp add: tokens_nonempty_def)
  with r(3) have c: "cl ''session_token'' = Some (JString (session_Token r))"
    by (auto simp: claim_string_or_empty_def claim_string_Some [symmetric] split: option.splits)
  have t: "session_Token session = session_Token r"
    by (simp add: r(2) preload_User_def)
  from g have "jwt_SignedString L
              (access_claims cfg now (user_ID (session_User (preload_User d r))) (session_Token r))
              (JWT_Secret cfg) = Some at"
    by (simp add: generateAccessToken_def r(2) preload_User_fields)
  moreover have "access_claims cfg now (user_ID (session_User (preload_User d r)))
                   (session_Token r) ''session_token'' = cl ''session_token''"
    by (simp add: access_claims_def c)
  ultimately show ?thesis using p r(1,4) c b by auto
qed

text \<open>
  C5. On a reachable store, and with a store that reads no uuid from the empty text, a
  token string passes the validation of \<open>RefreshToken\<close> (the handler does not answer
  401) if and only if the authenticator lets the request with that bearer token
  through. Tokens whose \<open>user_id\<close> or \<open>session_token\<close> claim is missing or no string
  fail both: the authenticator rejects them outright, the refresh handler looks up the
  empty string and finds no session.
\<close>

theorem refresh_validation_matches_authenticator:
  assumes "reachable L d" and "pg_uuid_in L '''' = None"
  shows "status (RefreshToken L cfg d now (Bound \<lparr>req_RefreshToken = tok\<rparr>)) \<noteq> 401
          \<longleftrightarrow> (\<exists>c. AuthMiddleware L cfg d now (''Bearer '' @ tok) = Next c)"
proof (cases "jwt_Parse L now tok (auth_keyFunc cfg)")
  case None
  then show ?thesis
    by (simp add: RefreshToken_def AuthMiddleware_Bearer_cons jwt_Parse_keyFunc unauthorized_def
        StatusUnauthorized_def)
next
  case (Some cl)
  note tn = reachable_tokens_nonempty [OF assms(1)]
  have st: "\<And>r rt. status (case generateAccessToken L cfg now (user_ID (session_User r))
                              (session_Token r) of
                       None \<Rightarrow> internal_error ''Failed to generate access token''
                     | Some accessToken \<Rightarrow>
                         Response StatusOK
                           (LoginBody \<lparr>resp_User = (session_User r)\<lparr>user_Password := ''''\<rparr>,
                                       resp_AccessToken = accessToken,
                                       resp_RefreshToken = rt,
                                       resp_ExpiresIn = ExpiresIn cfg\<rparr>)) \<noteq> 401"
    by (simp add: internal_error_def StatusInternalServerError_def StatusOK_def
        split: option.splits)
  show ?thesis
  proof (cases "claim_string cl ''user_id''")
    case None
    have "\<exists>e. find_active_session L d (claim_string_or_empty cl ''session_token'') '''' = Inl e"
      using assms(2) by (simp add: find_active_session_def)
    with Some None show ?thesis
      by (auto simp: RefreshToken_def AuthMiddleware_Bearer_cons jwt_Parse_keyFunc Let_def
          claim_string_or_empty_def unauthorized_def StatusUnauthorized_def)
  next
    case u: (Some userID)
    show ?thesis
    proof (cases "claim_string cl ''session_token''")
      case None
      from find_active_session_empty_token [of d L userID] tn
      have "\<exists>e. find_active_session L d '''' userID = Inl e"
        by (simp add: tokens_nonempty_def)
      with Some u None show ?thesis
        by (auto simp: RefreshToken_def AuthMiddleware_Bearer_cons jwt_Parse_keyFunc Let_def
            claim_string_or_empty_def unauthorized_def StatusUnauthorized_def)
    next
      case t: (Some sessionToken)
      show ?thesis
      proof (cases "find_active_session L d sessionToken userID")
        case (Inl e)
        with Some u t show ?thesis
          by (simp add: RefreshToken_def AuthMiddleware_Bearer_cons jwt_Parse_keyFunc Let_def
              claim_string_or_empty_def unauthorized_def StatusUnauthorized_def)
      next
        case (Inr session)
        with Some u t show ?thesis
          by (simp add: RefreshToken_def AuthMiddleware_Bearer_cons jwt_Parse_keyFunc Let_def
              claim_string_or_empty_def unauthorized_def StatusUnauthorized_def st)
      qed
    qed
  qed
qed

text \<open>
  C9. \<open>RefreshToken\<close> does not look at the \<open>type\<close> claim: two tokens that both pass
  \<open>jwt.Parse\<close> and whose claims agree on \<open>user_id\<close> and \<open>session_token\<close> get the
  same status, and when one is answered with 200 the other is answered with the same
  body but for the echoed refresh token. An access token is thus accepted wherever the
  refresh token of the same session is.
\<close>

theorem RefreshToken_ignores_type_claim:
  assumes "jwt_Parse L now t1 (refresh_keyFunc cfg) = Some c1"
    and "jwt_Parse L now t2 (refresh_keyFunc cfg) = Some c2"
    and "c1 ''user_id'' = c2 ''user_id''" and "c1 ''session_token'' = c2 ''session_token''"
  shows "status (RefreshToken L cfg d now (Bound \<lparr>req_RefreshToken = t1\<rparr>))
           = status (RefreshToken L cfg d now (Bound \<lparr>req_RefreshToken = t2\<rparr>))
       \<and> (\<forall>resp. RefreshToken L cfg d now (Bound \<lparr>req_RefreshToken = t1\<rparr>)
                    = Response 200 (LoginBody resp)
            \<longrightarrow> RefreshToken L cfg d now (Bound \<lparr>req_RefreshToken = t2\<rparr>)
                    = Response 200 (LoginBody (resp\<lparr>resp_RefreshToken := t2\<rparr>)))"
proof -
  from assms(3,4) have e: "claim_string_or_empty c1 ''user_id'' = claim_string_or_empty c2 ''user_id''"
    "claim_string_or_empty c1 ''session_token'' = claim_string_or_empty c2 ''session_token''"
    by (simp_all add: claim_string_or_empty_def claim_string_def)
  show ?thesis
    by (auto simp: RefreshToken_def Let_def assms(1,2) e unauthorized_def internal_error_def
        StatusUnauthorized_def StatusInternalServerError_def StatusOK_def
        split: sum.splits option.splits)
qed

section \<open>The token properties on the concrete installation\<close>

lemma uuid_String_nonempty': "'''' \<noteq> uuid_String u"
  using uuid_String_nonempty [of u] by simp

lemma tok_distinct:
  "refresh_tok \<noteq> access_tok" "''no-session-claim'' \<noteq> access_tok"
  "''no-session-claim'' \<noteq> refresh_tok"
  by (simp_all add: access_tok_def refresh_tok_def)

lemma decode_L0:
  "jwt_decode L0 access_tok = Some (SigningMethodHMAC, demo_claims ''access'')"
  "jwt_decode L0 refresh_tok = Some (SigningMethodHMAC, demo_claims ''refresh'')"
  "jwt_decode L0 ''no-session-claim''
     = Some (SigningMethodHMAC, [''user_id'' \<mapsto> JString (uuid_String 1)])"
  by (simp_all add: L0_def tok_distinct)

lemma parse_L0:
  "jwt_Parse L0 now access_tok (refresh_keyFunc cfg0) = Some (demo_claims ''access'')"
  "jwt_Parse L0 now refresh_tok (refresh_keyFunc cfg0) = Some (demo_claims ''refresh'')"
  "jwt_Parse L0 now ''no-session-claim'' (refresh_keyFunc cfg0)
     = Some [''user_id'' \<mapsto> JString (uuid_String 1)]"
  by (simp_all add: jwt_Parse_def decode_L0 refresh_keyFunc_def cfg0_def)
     (simp_all add: L0_def)

lemma pg_uuid_in_L0: "pg_uuid_in L0 '''' = None" "pg_uuid_in L0 (uuid_String 1) = Some 1"
  by (simp_all add: L0_def uuid_String_nonempty')

lemma preload_alice:
  "preload_User d_login alice_session
     = alice_session\<lparr>session_User := alice\<lparr>user_LastLoginAt := Some 1000\<rparr>\<rparr>"
  by (simp add: preload_User_def d_login_def visible_users_def alice_session_def alice_def
      bob_def zero_user_def)

lemma find_alice_session:
  "find_active_session L0 d_login (uuid_String 7) (uuid_String 1)
     = Inr (alice_session\<lparr>session_User := alice\<lparr>user_LastLoginAt := Some 1000\<rparr>\<rparr>)"
proof -
  have "filter (\<lambda>s. session_Token s = uuid_String 7 \<and> session_UserID s = 1 \<and> session_IsActive s)
          (sessions d_login) = [alice_session]"
    by (simp add: d_login_def alice_session_def)
  then show ?thesis
    by (simp add: find_active_session_def pg_uuid_in_L0 preload_alice) (simp add: d_login_def)
qed

lemma demo_claims_strings:
  "claim_string (demo_claims ty) ''user_id'' = Some (uuid_String 1)"
  "claim_string (demo_claims ty) ''session_token'' = Some (uuid_String 7)"
  by (simp_all add: claim_string_def demo_claims_def)

lemma alice_session_live:
  "\<not> IsExpired (alice_session\<lparr>session_User := u\<rparr>) 2000"
  "session_Token (alice_session\<lparr>session_User := u\<rparr>) = uuid_String 7"
  by (simp_all add: IsExpired_def alice_session_def cfg0_def Second_def)

lemma sign_L0:
  "generateAccessToken L0 cfg0 now uid (uuid_String 7) = Some access_tok"
  by (simp add: generateAccessToken_def access_claims_def L0_def access_tok_def)

lemma Refresh_alice:
  "RefreshToken L0 cfg0 d_login 2000 (Bound \<lparr>req_RefreshToken = refresh_tok\<rparr>) =
     Response 200
       (LoginBody \<lparr>resp_User = alice\<lparr>user_LastLoginAt := Some 1000, user_Password := ''''\<rparr>,
                   resp_AccessToken = access_tok, resp_RefreshToken = refresh_tok,
                   resp_ExpiresIn = 86400\<rparr>)"
  by (simp add: RefreshToken_def parse_L0 claim_string_or_empty_def demo_claims_strings
      find_alice_session alice_session_live sign_L0 ExpiresIn_cfg0 StatusOK_def)

lemma reachable_d_login: "reachable L0 d_login"
proof -
  have "store_step L0 d_init d_login"
    using Login_alice by (rule store_step.login)
  moreover have "sessions d_init = []" by (simp add: d_init_def)
  ultimately show ?thesis unfolding reachable_def by blast
qed

theorem RefreshToken_keeps_session_witness:
  "reachable L0 d_login
   \<and> status (RefreshToken L0 cfg0 d_login 2000 (Bound \<lparr>req_RefreshToken = refresh_tok\<rparr>)) = 200
   \<and> access_claims cfg0 2000 1 (uuid_String 7) ''session_token''
       = demo_claims ''refresh'' ''session_token''"
proof -
  from RefreshToken_keeps_session [OF reachable_d_login Refresh_alice]
  obtain cl r where "jwt_Parse L0 2000 refresh_tok (refresh_keyFunc cfg0) = Some cl"
    and "r \<in> set (sessions d_login)"
    and "access_claims cfg0 2000 (user_ID (session_User (preload_User d_login r)))
           (session_Token r) ''session_token'' = cl ''session_token''"
    by auto
  then have "access_claims cfg0 2000 (user_ID (session_User (preload_User d_login alice_session)))
           (session_Token alice_session) ''session_token'' = demo_claims ''refresh'' ''session_token''"
    by (simp add: parse_L0 d_login_def)
  then show ?thesis
    by (simp add: reachable_d_login Refresh_alice preload_alice)
       (simp add: alice_session_def alice_def zero_user_def)
qed

theorem refresh_validation_matches_authenticator_witness:
  "reachable L0 d_login \<and> pg_uuid_in L0 '''' = None
   \<and> status (RefreshToken L0 cfg0 d_login 2000 (Bound \<lparr>req_RefreshToken = ''no-session-claim''\<rparr>))
       = 401
   \<and> AuthMiddleware L0 cfg0 d_login 2000 (''Bearer '' @ ''no-session-claim'')
       = Abort (Response 401 (ErrorBody ''Invalid session token in claims''))
   \<and> status (RefreshToken L0 cfg0 d_login 2000 (Bound \<lparr>req_RefreshToken = refresh_tok\<rparr>)) = 200
   \<and> AuthMiddleware L0 cfg0 d_login 2000 (''Bearer '' @ refresh_tok)
       = Next \<lparr>ctx_user = Some (alice\<lparr>user_LastLoginAt := Some 1000\<rparr>), ctx_user_id = Some 1,
               ctx_session = Some (alice_session\<lparr>session_User := alice\<lparr>user_LastLoginAt := Some 1000\<rparr>\<rparr>)\<rparr>"
proof -
  have a: "AuthMiddleware L0 cfg0 d_login 2000 (''Bearer '' @ ''no-session-claim'')
       = Abort (Response 401 (ErrorBody ''Invalid session token in claims''))"
    unfolding AuthMiddleware_Bearer
    by (simp add: parse_L0 [unfolded jwt_Parse_keyFunc] claim_string_def unauthorized_def
        StatusUnauthorized_def)
  have n: "AuthMiddleware L0 cfg0 d_login 2000 (''Bearer '' @ refresh_tok)
       = Next \<lparr>ctx_user = Some (alice\<lparr>user_LastLoginAt := Some 1000\<rparr>), ctx_user_id = Some 1,
               ctx_session = Some (alice_session\<lparr>session_User := alice\<lparr>user_LastLoginAt := Some 1000\<rparr>\<rparr>)\<rparr>"
    unfolding AuthMiddleware_Bearer
    by (simp add: parse_L0 [unfolded jwt_Parse_keyFunc] demo_claims_strings find_alice_session
        alice_session_live)
       (simp add: alice_session_def alice_def zero_user_def)
  from refresh_validation_matches_authenticator [OF reachable_d_login pg_uuid_in_L0(1),
         of cfg0 2000 "''no-session-claim''"] a
  have "status (RefreshToken L0 cfg0 d_login 2000
                  (Bound \<lparr>req_RefreshToken = ''no-session-claim''\<rparr>)) = 401"
    by simp
  with a n show ?thesis
    by (simp add: reachable_d_login pg_uuid_in_L0 Refresh_alice)
qed

theorem RefreshToken_ignores_type_claim_witness:
  "status (RefreshToken L0 cfg0 d_login 2000 (Bound \<lparr>req_RefreshToken = access_tok\<rparr>)) = 200
   \<and> status (RefreshToken L0 cfg0 d_login 2000 (Bound \<lparr>req_RefreshToken = refresh_tok\<rparr>)) = 200
   \<and> demo_claims ''access'' ''type'' = Some (JString ''access'')
   \<and> demo_claims ''refresh'' ''type'' = Some (JString ''refresh'')"
proof -
  have "demo_claims ''refresh'' ''user_id'' = demo_claims ''access'' ''user_id''"
    and "demo_claims ''refresh'' ''session_token'' = demo_claims ''access'' ''session_token''"
    by (simp_all add: demo_claims_def)
  from RefreshToken_ignores_type_claim [OF parse_L0(2) parse_L0(1) this, of d_login]
  show ?thesis
    by (simp add: Refresh_alice demo_claims_def)
qed

lemma Logout_alice:
  "logout_route L0 cfg0 env1 d_login (''Bearer '' @ access_tok)
     = (d_logout, Response 200 (MessageBody ''Logged out successfully''))"
proof -
  have n: "AuthMiddleware L0 cfg0 d_login 2000 (''Bearer '' @ access_tok)
       = Next \<lparr>ctx_user = Some (alice\<lparr>user_LastLoginAt := Some 1000\<rparr>), ctx_user_id = Some 1,
               ctx_session = Some (alice_session\<lparr>session_User := alice\<lparr>user_LastLoginAt := Some 1000\<rparr>\<rparr>)\<rparr>"
    unfolding AuthMiddleware_Bearer
    by (simp add: parse_L0 [unfolded jwt_Parse_keyFunc] demo_claims_strings find_alice_session
        alice_session_live)
       (simp add: alice_session_def alice_def zero_user_def)
  have s: "Save_session env1 d_login
             (alice_session\<lparr>session_User := alice\<lparr>user_LastLoginAt := Some 1000\<rparr>,
                            session_IsActive := False\<rparr>) = Inr d_logout"
    by (simp add: Save_session_def update_session_def row_of_def d_logout_def d_login_def
        alice_session_def uuid_Nil_def)
  have "env_now env1 = 2000" by (simp add: env1_def)
  with n s show ?thesis
    by (simp add: logout_route_def Logout_def StatusOK_def)
qed

theorem inactive_session_rejected_witness:
  "schema_ok d_logout
   \<and> logout_route L0 cfg0 env1 d_login (''Bearer '' @ access_tok)
       = (d_logout, Response 200 (MessageBody ''Logged out successfully''))
   \<and> \<not> session_IsActive (alice_session\<lparr>session_IsActive := False\<rparr>)
   \<and> AuthMiddleware L0 cfg0 d_logout 2000 (''Bearer '' @ refresh_tok)
       = Abort (Response 401 (ErrorBody ''Invalid session''))
   \<and> status (RefreshToken L0 cfg0 d_logout 2000 (Bound \<lparr>req_RefreshToken = refresh_tok\<rparr>)) = 401
   \<and> \<not> IsExpired (alice_session\<lparr>session_IsActive := False\<rparr>) 2000"
proof -
  let ?s = "alice_session\<lparr>session_IsActive := False\<rparr>"
  have ok: "schema_ok d_logout"
    by (simp add: schema_ok_def d_logout_def)
  have m: "?s \<in> set (sessions d_logout)" and i: "\<not> session_IsActive ?s"
    and c: "demo_claims ''refresh'' ''session_token'' = Some (JString (session_Token ?s))"
    and x: "\<not> IsExpired ?s 2000"
    by (simp_all add: d_logout_def demo_claims_def alice_session_def IsExpired_def cfg0_def
        Second_def)
  from inactive_session_rejected [OF ok m i rtranclp.rtrancl_refl decode_L0(2) c, of cfg0 2000]
  obtain msg1 msg2 where
    a: "AuthMiddleware L0 cfg0 d_logout 2000 (''Bearer '' @ refresh_tok)
          = Abort (Response 401 (ErrorBody msg1))"
    and b: "RefreshToken L0 cfg0 d_logout 2000 (Bound \<lparr>req_RefreshToken = refresh_tok\<rparr>)
          = Response 401 (ErrorBody msg2)"
    by blast
  have "find_active_session L0 d_logout (uuid_String 7) (uuid_String 1) = Inl ErrRecordNotFound"
    by (simp add: find_active_session_def pg_uuid_in_L0 d_logout_def d_login_def)
  then have "AuthMiddleware L0 cfg0 d_logout 2000 (''Bearer '' @ refresh_tok)
          = Abort (Response 401 (ErrorBody ''Invalid session''))"
    unfolding AuthMiddleware_Bearer
    by (simp add: parse_L0 [unfolded jwt_Parse_keyFunc] demo_claims_strings unauthorized_def
        StatusUnauthorized_def)
  with ok i x b show ?thesis
    by (simp add: Logout_alice [simplified])
qed

text \<open>
  That the store is reachable is needed for this equivalence: on a store that holds an
  active session with the empty token, which no login produces, a token without
  \<open>session_token\<close> claim passes the refresh handler and fails the authenticator.
\<close>

lemma refresh_differs_outside_reachable_stores:
  "status (RefreshToken L0 cfg0 d_odd 2000 (Bound \<lparr>req_RefreshToken = ''no-session-claim''\<rparr>)) = 200
   \<and> AuthMiddleware L0 cfg0 d_odd 2000 (''Bearer '' @ ''no-session-claim'')
       = Abort (Response 401 (ErrorBody ''Invalid session token in claims''))
   \<and> \<not> reachable L0 d_odd"
proof -
  have f: "find_active_session L0 d_odd '''' (uuid_String 1)
             = Inr (preload_User d_odd (alice_session\<lparr>session_Token := ''''\<rparr>))"
    by (simp add: find_active_session_def pg_uuid_in_L0 d_odd_def d_login_def alice_session_def)
  have x: "\<not> IsExpired (preload_User d_odd (alice_session\<lparr>session_Token := ''''\<rparr>)) 2000"
    by (simp add: IsExpired_def preload_User_def alice_session_def cfg0_def Second_def)
  have g: "\<And>uid. generateAccessToken L0 cfg0 2000 uid '''' = Some ''access:''"
    by (simp add: generateAccessToken_def access_claims_def L0_def)
  have r: "status (RefreshToken L0 cfg0 d_odd 2000
                     (Bound \<lparr>req_RefreshToken = ''no-session-claim''\<rparr>)) = 200"
    by (simp add: RefreshToken_def parse_L0 claim_string_or_empty_def claim_string_def f x
        StatusOK_def)
       (simp add: preload_User_def alice_session_def g StatusOK_def)
  have a: "AuthMiddleware L0 cfg0 d_odd 2000 (''Bearer '' @ ''no-session-claim'')
       = Abort (Response 401 (ErrorBody ''Invalid session token in claims''))"
    unfolding AuthMiddleware_Bearer
    by (simp add: parse_L0 [unfolded jwt_Parse_keyFunc] claim_string_def unauthorized_def
        StatusUnauthorized_def)
  have "\<not> tokens_nonempty d_odd"
    by (simp add: tokens_nonempty_def d_odd_def alice_session_def)
  with reachable_tokens_nonempty have "\<not> reachable L0 d_odd" by blast
  with r a show ?thesis by simp
qed

end
